(* ===== verification/Mineshaft_Prelude.thy ===== *)
theory Mineshaft_Prelude
  imports Main "HOL-Library.Word" "HOL-Library.Multiset"
begin

text \<open>
  Shared vocabulary of the development: Rust's machine integers, results and time
  values as HOL types, the collections of rewrite rules the component proofs use, a few
  facts on lists, and the generic notion of a reachable state with the interface
  (\<open>invariant_system\<close>) through which every state machine below obtains its invariant.
\<close>

section \<open>Machine integers and results\<close>

type_synonym u8 = "8 word"
type_synonym u16 = "16 word"
type_synonym u32 = "32 word"
type_synonym u64 = "64 word"
type_synonym u128 = "128 word"
type_synonym i32 = "32 word"

text \<open>
  Lengths and counters of type \<open>usize\<close> are natural numbers: they count elements held in
  memory. Durations and instants are natural numbers of milliseconds.
\<close>

type_synonym usize = nat
type_synonym millis = nat

type_synonym ('a, 'e) result = "'e + 'a"

abbreviation Ok :: "'a \<Rightarrow> ('a, 'e) result" where
  "Ok \<equiv> Inr"

abbreviation Err :: "'e \<Rightarrow> ('a, 'e) result" where
  "Err \<equiv> Inl"

definition is_ok :: "('a, 'e) result \<Rightarrow> bool" where
  "is_ok r = (case r of Inl _ \<Rightarrow> False | Inr _ \<Rightarrow> True)"

definition map_err :: "('e \<Rightarrow> 'f) \<Rightarrow> ('a, 'e) result \<Rightarrow> ('a, 'f) result" where
  "map_err f r = (case r of Inl e \<Rightarrow> Inl (f e) | Inr a \<Rightarrow> Inr a)"

named_theorems result_simps "evaluation of results"
named_theorems machine_defs "definitions of the operations of a state machine"

lemma is_ok_simps [simp, result_simps]:
  "is_ok (Inl e) = False" "is_ok (Inr a) = True"
  by (simp_all add: is_ok_def)

lemma map_err_simps [simp, result_simps]:
  "map_err f (Inl e) = Inl (f e)" "map_err f (Inr a) = Inr a"
  by (simp_all add: map_err_def)

lemma is_ok_iff: "is_ok r \<longleftrightarrow> (\<exists>a. r = Inr a)"
  by (cases r) simp_all

section \<open>Facts on lists\<close>

lemma mset_sort_key [simp]: "mset (sort_key f xs) = mset xs"
  by simp

lemma distinct_map_fst_filter:
  "distinct (map fst xs) \<Longrightarrow> distinct (map fst (filter P xs))"
  by (induction xs) auto

lemma map_of_filter_key:
  "map_of (filter (\<lambda>(k, v). P k) xs) k = (if P k then map_of xs k else None)"
  by (induction xs) auto

lemma map_of_filter_pair:
  assumes "distinct (map fst xs)"
  shows "map_of (filter P xs) k =
    (case map_of xs k of None \<Rightarrow> None | Some v \<Rightarrow> if P (k, v) then Some v else None)"
  using assms
proof (induction xs)
  case Nil
  then show ?case by simp
next
  case (Cons x xs)
  obtain a b where x: "x = (a, b)" by fastforce
  show ?case
  proof (cases "k = a")
    case True
    then have "map_of xs k = None"
      using Cons.prems x by (simp add: map_of_eq_None_iff)
    then show ?thesis using Cons x True by simp
  next
    case False
    then show ?thesis using Cons x by simp
  qed
qed

lemma sort_key_hd_in: "xs \<noteq> [] \<Longrightarrow> hd (sort_key f xs) \<in> set xs"
  by (metis hd_in_set length_0_conv length_sort set_sort)

section \<open>Reachable states and invariants\<close>

text \<open>
  A machine is a set of initial states and a labelled step relation. \<open>reachable\<close> is the
  least set of states closed under steps; \<open>runs\<close> keeps the labels of a run.
\<close>

inductive reachable :: "('s \<Rightarrow> bool) \<Rightarrow> ('s \<Rightarrow> 'l \<Rightarrow> 's \<Rightarrow> bool) \<Rightarrow> 's \<Rightarrow> bool"
  for init :: "'s \<Rightarrow> bool" and step :: "'s \<Rightarrow> 'l \<Rightarrow> 's \<Rightarrow> bool" where
  reach_init: "init s \<Longrightarrow> reachable init step s"
| reach_step: "reachable init step s \<Longrightarrow> step s l t \<Longrightarrow> reachable init step t"

inductive runs :: "('s \<Rightarrow> 'l \<Rightarrow> 's \<Rightarrow> bool) \<Rightarrow> 's \<Rightarrow> 'l list \<Rightarrow> 's \<Rightarrow> bool"
  for step :: "'s \<Rightarrow> 'l \<Rightarrow> 's \<Rightarrow> bool" where
  runs_nil: "runs step s [] s"
| runs_cons: "step s l t \<Longrightarrow> runs step t ls u \<Longrightarrow> runs step s (l # ls) u"

inductive_simps runs_Nil_iff [simp]: "runs step s [] t"
inductive_simps runs_Cons_iff: "runs step s (l # ls) u"

lemma reachable_runs:
  "runs step s ls t \<Longrightarrow> reachable init step s \<Longrightarrow> reachable init step t"
  by (induction rule: runs.induct) (auto intro: reach_step)

lemma runs_append: "runs step s ls t \<Longrightarrow> runs step t ls' u \<Longrightarrow> runs step s (ls @ ls') u"
  by (induction rule: runs.induct) (auto intro: runs_cons)

lemma reachable_run:
  "reachable init step t \<Longrightarrow> \<exists>s ls. init s \<and> runs step s ls t"
proof (induction rule: reachable.induct)
  case (reach_init s)
  then show ?case using runs_nil by metis
next
  case (reach_step s l t)
  then obtain s0 ls where "init s0" "runs step s0 ls s" by blast
  moreover have "runs step s [l] t" using reach_step.hyps(2) by (blast intro: runs.intros)
  ultimately show ?case using runs_append by metis
qed

text \<open>
  The interface of every invariant proof: a machine provides that its initial states
  satisfy the invariant and that one step keeps it; the client obtains it for reachable
  states, for whole runs, and in a form that carries a derived safety property.
\<close>

locale invariant_system =
  fixes init :: "'s \<Rightarrow> bool"
    and step :: "'s \<Rightarrow> 'l \<Rightarrow> 's \<Rightarrow> bool"
    and inv :: "'s \<Rightarrow> bool"
  assumes inv_init: "init s \<Longrightarrow> inv s"
    and inv_step: "inv s \<Longrightarrow> step s l t \<Longrightarrow> inv t"
begin

lemma inv_reachable: "reachable init step s \<Longrightarrow> inv s"
  by (induction rule: reachable.induct) (auto intro: inv_init inv_step)

lemma inv_runs: "runs step s ls t \<Longrightarrow> inv s \<Longrightarrow> inv t"
  by (induction rule: runs.induct) (auto intro: inv_step)

lemma safety: "reachable init step s \<Longrightarrow> (\<And>s. inv s \<Longrightarrow> P s) \<Longrightarrow> P s"
  using inv_reachable by blast

end

end
