(* ===== verification/Rust_Str.thy ===== *)
theory Rust_Str
  imports Mineshaft_Prelude
begin

text \<open>
  Rust strings, as the list of their Unicode scalar values, and the functions of the
  standard library that mineshaft calls on them: splitting into lines and words, trimming,
  prefix, suffix and substring tests, ASCII and Unicode case folding, the hexadecimal
  formats \<open>{:04X}\<close>, \<open>{:016x}\<close>, \<open>{:#x}\<close>, and \<open>u64::from_str\<close>.
\<close>

section \<open>Strings\<close>

type_synonym rchar = nat
type_synonym rstr = "rchar list"

definition lit :: "string \<Rightarrow> rstr" where
  "lit s = map of_char s"

text \<open>\<open>char::is_whitespace\<close>: the Unicode property White\_Space.\<close>

definition is_whitespace :: "rchar \<Rightarrow> bool" where
  "is_whitespace c \<longleftrightarrow>
     (9 \<le> c \<and> c \<le> 13) \<or> c = 32 \<or> c = 133 \<or> c = 160 \<or> c = 5760 \<or>
     (8192 \<le> c \<and> c \<le> 8202) \<or> c = 8232 \<or> c = 8233 \<or> c = 8239 \<or> c = 8287 \<or> c = 12288"

text \<open>
  \<open>str::lines\<close>: the text is cut after every newline, a final newline opens no further line,
  and a carriage return before the newline is dropped.
\<close>

definition strip_cr :: "rstr \<Rightarrow> rstr" where
  "strip_cr s = (if s \<noteq> [] \<and> last s = 13 then butlast s else s)"

function str_lines :: "rstr \<Rightarrow> rstr list" where
  "str_lines s =
     (if s = [] then []
      else let l = takeWhile (\<lambda>c. c \<noteq> 10) s; rest = dropWhile (\<lambda>c. c \<noteq> 10) s
           in case rest of [] \<Rightarrow> [l] | _ # rest' \<Rightarrow> strip_cr l # str_lines rest')"
  by pat_completeness auto
termination
proof (relation "measure length")
  show "wf (measure (length :: rstr \<Rightarrow> nat))" by simp
next
  fix s l rest x :: rstr and c rest'
  assume "s \<noteq> []" and "l = takeWhile (\<lambda>c. c \<noteq> 10) s" and "rest = dropWhile (\<lambda>c. c \<noteq> 10) s"
    and "rest = c # rest'"
  then have "length (c # rest') \<le> length s" by (metis length_dropWhile_le)
  then show "(rest', s) \<in> measure length" by simp
qed

declare str_lines.simps [simp del]

text \<open>\<open>str::split_whitespace\<close>: the maximal runs of non-whitespace characters.\<close>

function split_whitespace :: "rstr \<Rightarrow> rstr list" where
  "split_whitespace s =
     (let t = dropWhile is_whitespace s
      in if t = [] then []
         else takeWhile (\<lambda>c. \<not> is_whitespace c) t
              # split_whitespace (dropWhile (\<lambda>c. \<not> is_whitespace c) t))"
  by pat_completeness auto
termination
proof (relation "measure length")
  show "wf (measure (length :: rstr \<Rightarrow> nat))" by simp
next
  fix s t :: rstr
  assume t: "t = dropWhile is_whitespace s" and ne: "t \<noteq> []"
  then have "\<not> is_whitespace (hd t)" by (simp add: hd_dropWhile)
  then have "length (dropWhile (\<lambda>c. \<not> is_whitespace c) t) < length t"
    using ne by (cases t) (simp_all add: length_dropWhile_le le_imp_less_Suc)
  moreover have "length t \<le> length s" using t by (simp add: length_dropWhile_le)
  ultimately show "(dropWhile (\<lambda>c. \<not> is_whitespace c) t, s) \<in> measure length" by simp
qed

declare split_whitespace.simps [simp del]

text \<open>\<open>Iterator::nth\<close>.\<close>

definition iter_nth :: "nat \<Rightarrow> 'a list \<Rightarrow> 'a option" where
  "iter_nth n xs = (if n < length xs then Some (xs ! n) else None)"

definition str_trim :: "rstr \<Rightarrow> rstr" where
  "str_trim s = rev (dropWhile is_whitespace (rev (dropWhile is_whitespace s)))"

definition starts_with :: "rstr \<Rightarrow> rstr \<Rightarrow> bool" where
  "starts_with s p \<longleftrightarrow> take (length p) s = p"

definition ends_with :: "rstr \<Rightarrow> rstr \<Rightarrow> bool" where
  "ends_with s p \<longleftrightarrow> length p \<le> length s \<and> drop (length s - length p) s = p"

fun str_contains :: "rstr \<Rightarrow> rstr \<Rightarrow> bool" where
  "str_contains [] p \<longleftrightarrow> p = []"
| "str_contains (c # s) p \<longleftrightarrow> starts_with (c # s) p \<or> str_contains s p"

definition is_ascii_digit :: "rchar \<Rightarrow> bool" where
  "is_ascii_digit c \<longleftrightarrow> 48 \<le> c \<and> c \<le> 57"

definition ascii_lower :: "rchar \<Rightarrow> rchar" where
  "ascii_lower c = (if 65 \<le> c \<and> c \<le> 90 then c + 32 else c)"

definition eq_ignore_ascii_case :: "rstr \<Rightarrow> rstr \<Rightarrow> bool" where
  "eq_ignore_ascii_case s t \<longleftrightarrow> map ascii_lower s = map ascii_lower t"

text \<open>
  \<open>str::to_lowercase\<close>: ASCII characters by rule; the lowering of any other character comes
  from the Unicode tables of the standard library and may depend on its neighbours (the
  final sigma), so the table is an argument that sees the string and the position.
\<close>

type_synonym case_table = "rstr \<Rightarrow> nat \<Rightarrow> rstr"

definition to_lowercase :: "case_table \<Rightarrow> rstr \<Rightarrow> rstr" where
  "to_lowercase table s =
     concat (map (\<lambda>i. if s ! i < 128 then [ascii_lower (s ! i)] else table s i) [0..<length s])"

definition replace_char :: "rchar \<Rightarrow> rstr \<Rightarrow> rstr \<Rightarrow> rstr" where
  "replace_char c r s = concat (map (\<lambda>x. if x = c then r else [x]) s)"

section \<open>Numbers\<close>

definition hex_digit :: "bool \<Rightarrow> nat \<Rightarrow> rchar" where
  "hex_digit upper d = (if d < 10 then 48 + d else if upper then 55 + d else 87 + d)"

fun hex_digits :: "bool \<Rightarrow> nat \<Rightarrow> rstr" where
  "hex_digits upper n =
     (if n < 16 then [hex_digit upper n]
      else hex_digits upper (n div 16) @ [hex_digit upper (n mod 16)])"

declare hex_digits.simps [simp del]

definition pad_zeros :: "nat \<Rightarrow> rstr \<Rightarrow> rstr" where
  "pad_zeros w s = replicate (w - length s) 48 @ s"

text \<open>\<open>format!("{:04X}", port)\<close>, \<open>format!("{:016x}", id)\<close> and \<open>format!("{:#x}", id)\<close>.\<close>

definition fmt_04X :: "u16 \<Rightarrow> rstr" where
  "fmt_04X w = pad_zeros 4 (hex_digits True (unat w))"

definition fmt_016x :: "u64 \<Rightarrow> rstr" where
  "fmt_016x w = pad_zeros 16 (hex_digits False (unat w))"

definition fmt_alt_x :: "u64 \<Rightarrow> rstr" where
  "fmt_alt_x w = lit ''0x'' @ hex_digits False (unat w)"

definition hex_value :: "rchar \<Rightarrow> nat" where
  "hex_value c = (if c \<le> 57 then c - 48 else if c \<le> 70 then c - 55 else c - 87)"

definition hex_read :: "rstr \<Rightarrow> nat" where
  "hex_read s = foldl (\<lambda>n c. 16 * n + hex_value c) 0 s"

text \<open>Decimal output, as \<open>Display\<close> of the unsigned integers writes it.\<close>

fun dec_digits :: "nat \<Rightarrow> rstr" where
  "dec_digits n = (if n < 10 then [48 + n] else dec_digits (n div 10) @ [48 + n mod 10])"

declare dec_digits.simps [simp del]

text \<open>\<open>u64::from_str\<close>: an optional plus sign, at least one digit, no overflow.\<close>

fun parse_digits :: "nat \<Rightarrow> rstr \<Rightarrow> nat option" where
  "parse_digits acc [] = Some acc"
| "parse_digits acc (c # s) =
     (if is_ascii_digit c \<and> 10 * acc + (c - 48) < 2 ^ 64
      then parse_digits (10 * acc + (c - 48)) s else None)"

definition parse_u64 :: "rstr \<Rightarrow> u64 option" where
  "parse_u64 s =
     (let ds = (case s of [] \<Rightarrow> [] | c # t \<Rightarrow> if c = 43 then t else s)
      in if ds = [] then None else map_option of_nat (parse_digits 0 ds))"

section \<open>Facts\<close>

lemma length_lit [simp]: "length (lit s) = length s"
  by (simp add: lit_def)

lemma lit_Nil [simp]: "lit [] = []"
  by (simp add: lit_def)

lemma lit_Cons [simp]: "lit (c # s) = of_char c # lit s"
  by (simp add: lit_def)

lemma ends_with_append [simp]: "ends_with (s @ p) p"
  by (simp add: ends_with_def)

lemma ends_with_iff: "ends_with s p \<longleftrightarrow> (\<exists>t. s = t @ p)"
  by (metis append_take_drop_id ends_with_append ends_with_def)

lemma starts_with_iff: "starts_with s p \<longleftrightarrow> (\<exists>t. s = p @ t)"
  by (metis append_eq_conv_conj append_take_drop_id starts_with_def)

lemma str_contains_iff: "str_contains s p \<longleftrightarrow> (\<exists>a b. s = a @ p @ b)"
proof (induction s p rule: str_contains.induct)
  case (1 p)
  then show ?case by auto
next
  case (2 c s p)
  have "(\<exists>a b. c # s = a @ p @ b) \<longleftrightarrow>
      (\<exists>b. c # s = p @ b) \<or> (\<exists>a b. c # s = (c # a) @ p @ b)"
    by (auto simp: Cons_eq_append_conv)
  with 2 show ?case by (simp add: starts_with_iff)
qed

lemma ends_with_append_same_length:
  "length p = length q \<Longrightarrow> ends_with (s @ p) q \<longleftrightarrow> p = q"
  by (auto simp: ends_with_iff append_eq_append_conv)

lemma hex_value_digit [simp]: "d < 16 \<Longrightarrow> hex_value (hex_digit u d) = d"
  by (auto simp: hex_value_def hex_digit_def)

lemma hex_read_append_one: "hex_read (s @ [c]) = 16 * hex_read s + hex_value c"
  by (simp add: hex_read_def)

lemma hex_read_digits [simp]: "hex_read (hex_digits u n) = n"
proof (induction u n rule: hex_digits.induct)
  case (1 u n)
  show ?case
  proof (cases "n < 16")
    case True
    then show ?thesis by (simp add: hex_digits.simps [of u n] hex_read_def)
  next
    case False
    with 1 show ?thesis by (simp add: hex_digits.simps [of u n] hex_read_append_one)
  qed
qed

lemma hex_read_zeros [simp]: "hex_read (replicate n 48 @ s) = hex_read s"
  by (induction n) (simp_all add: hex_read_def hex_value_def)

lemma hex_read_pad [simp]: "hex_read (pad_zeros w s) = hex_read s"
  by (simp add: pad_zeros_def)

lemma length_hex_digits: "n < 16 ^ k \<Longrightarrow> 0 < k \<Longrightarrow> length (hex_digits u n) \<le> k"
proof (induction u n arbitrary: k rule: hex_digits.induct)
  case (1 u n)
  show ?case
  proof (cases "n < 16")
    case True
    with "1.prems" show ?thesis by (simp add: hex_digits.simps [of u n])
  next
    case False
    obtain k' where k: "k = Suc k'" using "1.prems"(2) by (cases k) auto
    have "0 < k'" using False "1.prems"(1) k by (cases k') auto
    moreover have "n div 16 < 16 ^ k'" using "1.prems"(1) k by (simp add: less_mult_imp_div_less mult.commute)
    ultimately have "length (hex_digits u (n div 16)) \<le> k'" using "1.IH" False by blast
    then show ?thesis using k False by (simp add: hex_digits.simps [of u n])
  qed
qed

lemma length_fmt_04X [simp]: "length (fmt_04X w) = 4"
proof -
  have "unat w < 16 ^ 4" using unsigned_less [of w, where ?'a = nat] by simp
  then have "length (hex_digits True (unat w)) \<le> 4" by (rule length_hex_digits) simp
  then show ?thesis by (simp add: fmt_04X_def pad_zeros_def)
qed

lemma fmt_04X_inject [simp]: "fmt_04X v = fmt_04X w \<longleftrightarrow> v = w"
  by (metis fmt_04X_def hex_read_digits hex_read_pad unsigned_word_eqI)

lemma length_fmt_016x [simp]: "length (fmt_016x w) = 16"
proof -
  have "unat w < 16 ^ 16" using unsigned_less [of w, where ?'a = nat] by simp
  then have "length (hex_digits False (unat w)) \<le> 16" by (rule length_hex_digits) simp
  then show ?thesis by (simp add: fmt_016x_def pad_zeros_def)
qed

lemma fmt_016x_inject [simp]: "fmt_016x v = fmt_016x w \<longleftrightarrow> v = w"
  by (metis fmt_016x_def hex_read_digits hex_read_pad unsigned_word_eqI)

lemma dec_digits_nonempty [simp]: "dec_digits n \<noteq> []"
  by (subst dec_digits.simps) simp

lemma set_dec_digits: "c \<in> set (dec_digits n) \<Longrightarrow> is_ascii_digit c"
proof (induction n rule: dec_digits.induct)
  case (1 n)
  show ?case
  proof (cases "n < 10")
    case True
    with "1.prems" show ?thesis by (simp add: dec_digits.simps [of n] is_ascii_digit_def)
  next
    case False
    with 1 show ?thesis by (auto simp: dec_digits.simps [of n] is_ascii_digit_def)
  qed
qed

lemma parse_digits_append:
  "parse_digits acc (s @ t) = Option.bind (parse_digits acc s) (\<lambda>n. parse_digits n t)"
  by (induction acc s rule: parse_digits.induct) auto

lemma parse_dec_digits: "n < 2 ^ 64 \<Longrightarrow> parse_digits 0 (dec_digits n) = Some n"
proof (induction n rule: dec_digits.induct)
  case (1 n)
  show ?case
  proof (cases "n < 10")
    case True
    then show ?thesis by (simp add: dec_digits.simps [of n] is_ascii_digit_def)
  next
    case False
    have "parse_digits 0 (dec_digits (n div 10)) = Some (n div 10)"
      using 1 False by (meson div_le_dividend le_less_trans)
    moreover have "10 * (n div 10) + n mod 10 = n" by simp
    ultimately show ?thesis
      using False "1.prems"
      by (simp add: dec_digits.simps [of n] parse_digits_append is_ascii_digit_def)
  qed
qed

lemma parse_u64_dec [simp]: "parse_u64 (dec_digits (unat w)) = Some w"
proof -
  have "unat w < 2 ^ 64" using unsigned_less [of w, where ?'a = nat] by simp
  then have p: "parse_digits 0 (dec_digits (unat w)) = Some (unat w)" by (rule parse_dec_digits)
  obtain c t where ct: "dec_digits (unat w) = c # t"
    using dec_digits_nonempty [of "unat w"] by (cases "dec_digits (unat w)") auto
  then have "c \<noteq> 43" using set_dec_digits [of c "unat w"] by (auto simp: is_ascii_digit_def)
  with p ct show ?thesis by (simp add: parse_u64_def)
qed

lemma parse_digits_bound: "parse_digits acc s = Some n \<Longrightarrow> acc < 2 ^ 64 \<Longrightarrow> n < 2 ^ 64"
  by (induction acc s rule: parse_digits.induct) (auto split: if_splits)

text \<open>An ASCII infix is lowered in place, whatever surrounds it.\<close>

lemma concat_map_singletons: "(\<forall>i\<in>set is. f i = [g i]) \<Longrightarrow> concat (map f is) = map g is"
  by (induction "is") auto

lemma to_lowercase_infix:
  assumes "\<forall>c\<in>set x. c < 128"
  shows "\<exists>a' b'. to_lowercase table (a @ x @ b) = a' @ map ascii_lower x @ b'"
proof -
  let ?s = "a @ x @ b"
  let ?f = "\<lambda>i. if ?s ! i < 128 then [ascii_lower (?s ! i)] else table ?s i"
  have "[0..<length ?s] =
      [0..<length a] @ [length a..<length a + length x] @ [length a + length x..<length ?s]"
    using upt_add_eq_append [of 0 "length a" "length x + length b"]
      upt_add_eq_append [of "length a" "length a + length x" "length b"]
    by (simp add: add.assoc)
  then have split: "to_lowercase table ?s = concat (map ?f [0..<length a])
      @ concat (map ?f [length a..<length a + length x])
      @ concat (map ?f [length a + length x..<length ?s])"
    by (simp add: to_lowercase_def)
  have "concat (map ?f [length a..<length a + length x]) =
      map (\<lambda>i. ascii_lower (?s ! i)) [length a..<length a + length x]"
    by (rule concat_map_singletons) (use assms in \<open>auto simp: nth_append\<close>)
  also have "\<dots> = map ascii_lower x"
    by (rule nth_equalityI) (simp_all add: nth_append)
  finally show ?thesis using split by auto
qed

lemma to_lowercase_ascii:
  "\<forall>c\<in>set x. c < 128 \<Longrightarrow> to_lowercase table x = map ascii_lower x"
proof -
  assume "\<forall>c\<in>set x. c < 128"
  then have "to_lowercase table x = map (\<lambda>i. ascii_lower (x ! i)) [0..<length x]"
    unfolding to_lowercase_def by (intro concat_map_singletons) auto
  then show ?thesis by (simp add: map_equality_iff)
qed

end
