(* ===== verification/Core_Types.thy ===== *)
theory Core_Types
  imports Rust_Str
begin

text \<open>
  The data every component shares: the I/O errors of the standard library, the error type
  of the core crate (\<open>error.rs\<close>), socket addresses, the advertised server metadata and the
  configurations with their defaults (\<open>config.rs\<close>), and the advertised server entry of
  \<open>discovery.rs\<close>. An error of the NetherNet crate is opaque to mineshaft, which only ever
  formats it: it is known by its text.
\<close>

section \<open>Errors\<close>

datatype io_error_kind =
  KNotFound | KPermissionDenied | KUnexpectedEof | KInvalidData | KOther

record io_error =
  io_kind :: io_error_kind
  io_text :: rstr

datatype nethernet_error = NethernetError (nethernet_text: rstr)

datatype core_error =
  Nethernet nethernet_error
| Platform rstr
| Io io_error
| FrameTooLarge usize
| InvalidState rstr
| NotFound rstr
| Config rstr
| Other rstr

text \<open>The \<open>Display\<close> implementation that \<open>thiserror\<close> derives from the \<open>#[error]\<close> formats.\<close>

fun display_core_error :: "core_error \<Rightarrow> rstr" where
  "display_core_error (Nethernet e) = lit ''nethernet error: '' @ nethernet_text e"
| "display_core_error (Platform s) = lit ''platform error: '' @ s"
| "display_core_error (Io e) = lit ''io error: '' @ io_text e"
| "display_core_error (FrameTooLarge n) =
     lit ''frame too large: '' @ dec_digits n @ lit '' bytes''"
| "display_core_error (InvalidState s) = lit ''invalid state: '' @ s"
| "display_core_error (NotFound s) = lit ''not found: '' @ s"
| "display_core_error (Config s) = lit ''config error: '' @ s"
| "display_core_error (Other s) = s"

section \<open>Socket addresses\<close>

datatype socket_addr =
  SocketAddrV4 (ip4: u32) (port4: u16)
| SocketAddrV6 (ip6: u128) (port6: u16) (flowinfo: u32) (scope_id: u32)

fun socket_port :: "socket_addr \<Rightarrow> u16" where
  "socket_port (SocketAddrV4 _ p) = p"
| "socket_port (SocketAddrV6 _ p _ _) = p"

definition localhost_v4 :: u32 where
  "localhost_v4 = 2130706433"

section \<open>Configuration\<close>

record server_advertisement =
  server_name :: rstr
  level_name :: rstr
  game_type :: u8
  player_count :: i32
  max_player_count :: i32
  editor_world :: bool
  hardcore :: bool
  flag_a :: bool
  flag_b :: bool
  session_id :: rstr
  transport_layer :: u8
  connection_type :: u8

definition default_advertisement :: server_advertisement where
  "default_advertisement =
     \<lparr>server_name = lit ''mineshaft'',
      level_name = lit ''mineshaft world'',
      game_type = 0,
      player_count = 1,
      max_player_count = 8,
      editor_world = False,
      hardcore = False,
      flag_a = True,
      flag_b = True,
      session_id = lit ''0000000000000000'',
      transport_layer = 2,
      connection_type = 4\<rparr>"

record discovery_config =
  heartbeat_interval :: millis
  local_targets :: "socket_addr list"
  bind_addr :: socket_addr

definition default_discovery_config :: discovery_config where
  "default_discovery_config =
     \<lparr>heartbeat_interval = 500,
      local_targets = [SocketAddrV6 1 7551 0 0, SocketAddrV4 localhost_v4 7551],
      bind_addr = SocketAddrV4 0 0\<rparr>"

record relay_config =
  max_advertised_hosts :: usize

definition default_relay_config :: relay_config where
  "default_relay_config = \<lparr>max_advertised_hosts = 64\<rparr>"

section \<open>Advertised servers\<close>

record advertised_server =
  sender_id :: u64
  ad_data :: server_advertisement

end
