(* ===== verification/Host_Registry.thy ===== *)
theory Host_Registry
  imports Core_Types
begin

text \<open>
  What a store of advertised servers promises to the code that publishes into it and
  lists it: the relay service and the rendezvous server each keep one. Publishing a record
  makes it the one found under its sender id; the listing holds exactly the records found
  by lookup. The locale derives what a browsing client may rely on.
\<close>

locale host_registry =
  fixes publish :: "advertised_server \<Rightarrow> 's \<Rightarrow> 's"
    and lookup :: "'s \<Rightarrow> u64 \<Rightarrow> advertised_server option"
    and listing :: "'s \<Rightarrow> advertised_server list"
    and ok :: "'s \<Rightarrow> bool"
  assumes ok_publish: "ok s \<Longrightarrow> ok (publish a s)"
    and lookup_publish: "ok s \<Longrightarrow> lookup (publish a s) (sender_id a) = Some a"
    and lookup_id: "ok s \<Longrightarrow> lookup s k = Some a \<Longrightarrow> sender_id a = k"
    and in_listing: "ok s \<Longrightarrow> a \<in> set (listing s) \<longleftrightarrow> lookup s (sender_id a) = Some a"
begin

lemma published_is_listed: "ok s \<Longrightarrow> a \<in> set (listing (publish a s))"
  by (simp add: in_listing ok_publish lookup_publish)

lemma listing_functional:
  "ok s \<Longrightarrow> a \<in> set (listing s) \<Longrightarrow> b \<in> set (listing s) \<Longrightarrow> sender_id a = sender_id b \<Longrightarrow> a = b"
  by (simp add: in_listing)

lemma republish_replaces:
  assumes "ok s" and "sender_id b = sender_id a" and "b \<in> set (listing (publish a s))"
  shows "b = a"
  using assms published_is_listed listing_functional ok_publish by blast

lemma ok_publish_all: "ok s \<Longrightarrow> ok (fold publish as s)"
  by (induction as arbitrary: s) (simp_all add: ok_publish)

lemma last_published_wins:
  "ok s \<Longrightarrow> as \<noteq> [] \<Longrightarrow> lookup (fold publish as s) (sender_id (last as)) = Some (last as)"
  by (induction as arbitrary: s rule: rev_induct) (simp_all add: lookup_publish ok_publish_all)

end

end
