(* ===== verification/Rust_HashMap.thy ===== *)
theory Rust_HashMap
  imports Mineshaft_Prelude "HOL-Library.AList"
begin

text \<open>
  The part of Rust's standard library \<open>HashMap\<close> that mineshaft uses. A map is an
  association list whose keys are distinct (\<open>hm_ok\<close>). Rust leaves the iteration order
  unspecified: it depends on the random hasher of the map. The model makes that order an
  argument: a \<open>hasher\<close> ranks the keys and \<open>hm_iter\<close> visits the entries by rank, so every
  order of the entries is the iteration order of some hasher, and a fact proved for all
  hashers holds for whatever order the running program sees.
  The locale \<open>map_interface\<close> is the contract the components rely on.
\<close>

section \<open>Operations\<close>

type_synonym ('k, 'v) hashmap = "('k \<times> 'v) list"
type_synonym 'k hasher = "'k \<Rightarrow> nat"

definition hm_new :: "('k, 'v) hashmap" where
  "hm_new = []"

definition hm_get :: "('k, 'v) hashmap \<Rightarrow> 'k \<Rightarrow> 'v option" where
  "hm_get m k = map_of m k"

definition hm_contains_key :: "('k, 'v) hashmap \<Rightarrow> 'k \<Rightarrow> bool" where
  "hm_contains_key m k = (hm_get m k \<noteq> None)"

definition hm_insert :: "'k \<Rightarrow> 'v \<Rightarrow> ('k, 'v) hashmap \<Rightarrow> ('k, 'v) hashmap" where
  "hm_insert k v m = AList.update k v m"

definition hm_remove :: "'k \<Rightarrow> ('k, 'v) hashmap \<Rightarrow> ('k, 'v) hashmap" where
  "hm_remove k m = AList.delete k m"

definition hm_retain :: "('k \<Rightarrow> 'v \<Rightarrow> bool) \<Rightarrow> ('k, 'v) hashmap \<Rightarrow> ('k, 'v) hashmap" where
  "hm_retain P m = filter (\<lambda>(k, v). P k v) m"

definition hm_len :: "('k, 'v) hashmap \<Rightarrow> usize" where
  "hm_len m = length m"

definition hm_iter :: "'k hasher \<Rightarrow> ('k, 'v) hashmap \<Rightarrow> ('k \<times> 'v) list" where
  "hm_iter h m = sort_key (\<lambda>(k, v). h k) m"

definition hm_keys :: "'k hasher \<Rightarrow> ('k, 'v) hashmap \<Rightarrow> 'k list" where
  "hm_keys h m = map fst (hm_iter h m)"

definition hm_values :: "'k hasher \<Rightarrow> ('k, 'v) hashmap \<Rightarrow> 'v list" where
  "hm_values h m = map snd (hm_iter h m)"

definition hm_ok :: "('k, 'v) hashmap \<Rightarrow> bool" where
  "hm_ok m = distinct (map fst m)"

fun hm_remove_all :: "'k list \<Rightarrow> ('k, 'v) hashmap \<Rightarrow> ('k, 'v) hashmap" where
  "hm_remove_all [] m = m"
| "hm_remove_all (k # ks) m = hm_remove_all ks (hm_remove k m)"

named_theorems hm_simps "laws of the hash map"
named_theorems hm_eval "definitions of the hash map, to evaluate closed terms"

lemmas hm_defs [hm_eval] =
  hm_new_def hm_get_def hm_contains_key_def hm_insert_def hm_remove_def hm_retain_def
  hm_len_def hm_iter_def hm_keys_def hm_values_def hm_ok_def

section \<open>Laws\<close>

lemma hm_get_new [simp, hm_simps]: "hm_get hm_new k = None"
  by (simp add: hm_defs)

lemma hm_get_new_eq [simp, hm_simps]: "hm_get hm_new = Map.empty"
  by (rule ext) simp

lemma hm_get_insert [simp, hm_simps]:
  "hm_get (hm_insert k v m) k' = (if k' = k then Some v else hm_get m k')"
  by (simp add: hm_get_def hm_insert_def update_conv)

lemma hm_get_remove [simp, hm_simps]:
  "hm_get (hm_remove k m) k' = (if k' = k then None else hm_get m k')"
  by (simp add: hm_get_def hm_remove_def delete_conv')

lemma hm_get_retain [hm_simps]:
  "hm_ok m \<Longrightarrow> hm_get (hm_retain P m) k =
    (case hm_get m k of None \<Rightarrow> None | Some v \<Rightarrow> if P k v then Some v else None)"
  by (simp add: hm_get_def hm_retain_def hm_ok_def map_of_filter_pair cong: option.case_cong)

lemma hm_get_retain_Some:
  "hm_ok m \<Longrightarrow> hm_get (hm_retain P m) k = Some v \<longleftrightarrow> hm_get m k = Some v \<and> P k v"
  by (auto simp: hm_get_retain split: option.splits)

lemma hm_contains_key_iff [hm_simps]: "hm_contains_key m k \<longleftrightarrow> (\<exists>v. hm_get m k = Some v)"
  by (auto simp: hm_contains_key_def)

lemma hm_ok_new [simp, intro]: "hm_ok hm_new"
  by (simp add: hm_defs)

lemma hm_ok_insert [simp, intro]: "hm_ok m \<Longrightarrow> hm_ok (hm_insert k v m)"
  by (simp add: hm_ok_def hm_insert_def distinct_update)

lemma hm_ok_remove [simp, intro]: "hm_ok m \<Longrightarrow> hm_ok (hm_remove k m)"
  by (simp add: hm_ok_def hm_remove_def distinct_delete)

lemma hm_ok_retain [simp, intro]: "hm_ok m \<Longrightarrow> hm_ok (hm_retain P m)"
  by (simp add: hm_ok_def hm_retain_def distinct_map_fst_filter)

lemma hm_len_new [simp, hm_simps]: "hm_len hm_new = 0"
  by (simp add: hm_defs)

lemma hm_set_iter: "set (hm_iter h m) = set m"
  by (simp add: hm_iter_def)

lemma hm_in_iter: "hm_ok m \<Longrightarrow> (k, v) \<in> set (hm_iter h m) \<longleftrightarrow> hm_get m k = Some v"
  by (simp add: hm_set_iter hm_ok_def hm_get_def)

lemma hm_iter_distinct: "hm_ok m \<Longrightarrow> distinct (map fst (hm_iter h m))"
  unfolding hm_ok_def hm_iter_def
  by (metis mset_map mset_sort mset_eq_imp_distinct_iff)

lemma hm_length_iter [simp]: "length (hm_iter h m) = hm_len m"
  by (simp add: hm_iter_def hm_len_def)

section \<open>The interface the components use\<close>

locale map_interface =
  fixes empty :: 'm
    and get :: "'m \<Rightarrow> 'k \<Rightarrow> 'v option"
    and insert :: "'k \<Rightarrow> 'v \<Rightarrow> 'm \<Rightarrow> 'm"
    and remove :: "'k \<Rightarrow> 'm \<Rightarrow> 'm"
    and iter :: "'k hasher \<Rightarrow> 'm \<Rightarrow> ('k \<times> 'v) list"
    and ok :: "'m \<Rightarrow> bool"
  assumes get_empty: "get empty k = None"
    and get_insert: "get (insert k v m) k' = (if k' = k then Some v else get m k')"
    and get_remove: "get (remove k m) k' = (if k' = k then None else get m k')"
    and ok_empty: "ok empty"
    and ok_insert: "ok m \<Longrightarrow> ok (insert k v m)"
    and ok_remove: "ok m \<Longrightarrow> ok (remove k m)"
    and in_iter: "ok m \<Longrightarrow> (k, v) \<in> set (iter h m) \<longleftrightarrow> get m k = Some v"
    and iter_distinct: "ok m \<Longrightarrow> distinct (map fst (iter h m))"
begin

lemma dom_get: "ok m \<Longrightarrow> dom (get m) = set (map fst (iter h m))"
  using in_iter [of m _ _ h] by (force simp: dom_def)

lemma finite_dom: "ok m \<Longrightarrow> finite (dom (get m))"
  using dom_get [of m "\<lambda>_. 0"] by simp

lemma length_iter: "ok m \<Longrightarrow> length (iter h m) = card (dom (get m))"
  using dom_get [of m h] iter_distinct [of m h]
  by (metis distinct_card length_map)

lemma set_values: "ok m \<Longrightarrow> set (map snd (iter h m)) = ran (get m)"
  using in_iter [of m _ _ h] by (force simp: ran_def)

lemma iter_order_irrelevant: "ok m \<Longrightarrow> mset (iter h m) = mset (iter h' m)"
proof -
  assume m: "ok m"
  have "distinct (iter h m)" "distinct (iter h' m)"
    using iter_distinct [OF m] by (simp_all add: distinct_map)
  moreover have "set (iter h m) = set (iter h' m)"
    using in_iter [OF m] by auto
  ultimately show ?thesis by (metis set_eq_iff_mset_eq_distinct)
qed

lemma card_dom_insert:
  "ok m \<Longrightarrow> card (dom (get (insert k v m))) =
    (if get m k = None then Suc (card (dom (get m))) else card (dom (get m)))"
proof -
  assume m: "ok m"
  have "dom (get (insert k v m)) = Set.insert k (dom (get m))"
    by (auto simp: get_insert dom_def)
  with finite_dom [OF m] show ?thesis by (auto simp: card_insert_if dom_def)
qed

lemma card_dom_remove:
  "ok m \<Longrightarrow> card (dom (get (remove k m))) =
    (if get m k = None then card (dom (get m)) else card (dom (get m)) - 1)"
proof -
  assume m: "ok m"
  have "dom (get (remove k m)) = dom (get m) - {k}"
    by (auto simp: get_remove dom_def)
  with finite_dom [OF m] show ?thesis by (auto simp: card_Diff_singleton_if dom_def)
qed

end

interpretation hm: map_interface hm_new hm_get hm_insert hm_remove hm_iter hm_ok
  by unfold_locales (auto simp: hm_in_iter hm_iter_distinct)

lemma hm_len_card: "hm_ok m \<Longrightarrow> hm_len m = card (dom (hm_get m))"
  using hm.length_iter [of m "\<lambda>_. 0"] by simp

lemma hm_len_insert:
  "hm_ok m \<Longrightarrow> hm_len (hm_insert k v m) =
    (if hm_contains_key m k then hm_len m else Suc (hm_len m))"
  by (simp add: hm_len_card hm.card_dom_insert hm_contains_key_def)

lemma hm_len_remove:
  "hm_ok m \<Longrightarrow> hm_len (hm_remove k m) =
    (if hm_contains_key m k then hm_len m - 1 else hm_len m)"
  by (simp add: hm_len_card hm.card_dom_remove hm_contains_key_def)

lemma hm_set_values: "hm_ok m \<Longrightarrow> set (hm_values h m) = ran (hm_get m)"
  unfolding hm_values_def by (rule hm.set_values)

lemma hm_set_keys: "hm_ok m \<Longrightarrow> set (hm_keys h m) = dom (hm_get m)"
  unfolding hm_keys_def by (rule hm.dom_get [symmetric])

lemma hm_distinct_keys: "hm_ok m \<Longrightarrow> distinct (hm_keys h m)"
  by (simp add: hm_keys_def hm_iter_distinct)

text \<open>Iterating over the values visits the value of every key exactly once.\<close>

lemma hm_mset_values:
  assumes "hm_ok m" and "distinct ks" and "set ks = dom (hm_get m)"
  shows "mset (hm_values h m) = mset (map (\<lambda>k. the (hm_get m k)) ks)"
proof -
  have "hm_values h m = map (\<lambda>k. the (hm_get m k)) (hm_keys h m)"
    using hm_in_iter [OF assms(1), of _ _ h] by (auto simp: hm_values_def hm_keys_def)
  moreover have "mset (hm_keys h m) = mset ks"
    using assms hm_set_keys hm_distinct_keys by (metis set_eq_iff_mset_eq_distinct)
  ultimately show ?thesis by simp
qed

lemma hm_length_values [simp]: "length (hm_values h m) = hm_len m"
  by (simp add: hm_values_def)

lemma hm_length_keys [simp]: "length (hm_keys h m) = hm_len m"
  by (simp add: hm_keys_def)

lemma hm_ok_remove_all [simp, intro]: "hm_ok m \<Longrightarrow> hm_ok (hm_remove_all ks m)"
  by (induction ks arbitrary: m) auto

lemma hm_get_remove_all [simp, hm_simps]:
  "hm_get (hm_remove_all ks m) k = (if k \<in> set ks then None else hm_get m k)"
  by (induction ks arbitrary: m) auto

lemma hm_eq_empty: "hm_len m = 0 \<longleftrightarrow> m = hm_new"
  by (simp add: hm_len_def hm_new_def)

end
