(* ===== verification/Rust_Channel.thy ===== *)
theory Rust_Channel
  imports Mineshaft_Prelude
begin

text \<open>
  tokio's unbounded multi-producer channel, as mineshaft uses it: \<open>send\<close> appends unless the
  receiver is gone, in which case it hands the value back; \<open>try_recv\<close> takes the oldest
  value; dropping the receiver discards what is queued. The locale \<open>fifo_channel\<close> states
  the contract and derives what its clients need: sends queue up in order and never
  disturb what was queued before.
\<close>

record 'a channel =
  chan_queue :: "'a list"
  chan_rx_open :: bool

definition chan_new :: "'a channel" where
  "chan_new = \<lparr>chan_queue = [], chan_rx_open = True\<rparr>"

definition chan_send :: "'a \<Rightarrow> 'a channel \<Rightarrow> (unit, 'a) result \<times> 'a channel" where
  "chan_send x c =
     (if chan_rx_open c then (Ok (), c\<lparr>chan_queue := chan_queue c @ [x]\<rparr>) else (Err x, c))"

definition chan_try_recv :: "'a channel \<Rightarrow> 'a option \<times> 'a channel" where
  "chan_try_recv c =
     (case chan_queue c of
        [] \<Rightarrow> (None, c)
      | x # xs \<Rightarrow> (Some x, c\<lparr>chan_queue := xs\<rparr>))"

definition chan_close :: "'a channel \<Rightarrow> 'a channel" where
  "chan_close c = c\<lparr>chan_queue := [], chan_rx_open := False\<rparr>"

named_theorems chan_simps "laws of the channel"

lemma chan_new_sel [simp, chan_simps]:
  "chan_queue chan_new = []" "chan_rx_open chan_new"
  by (simp_all add: chan_new_def)

lemma chan_close_sel [simp, chan_simps]:
  "chan_queue (chan_close c) = []" "\<not> chan_rx_open (chan_close c)"
  by (simp_all add: chan_close_def)

lemma chan_rx_open_send [simp, chan_simps]:
  "chan_rx_open (snd (chan_send x c)) = chan_rx_open c"
  by (simp add: chan_send_def)

lemma chan_queue_send [simp, chan_simps]:
  "chan_queue (snd (chan_send x c)) = (if chan_rx_open c then chan_queue c @ [x] else chan_queue c)"
  by (simp add: chan_send_def)

locale fifo_channel =
  fixes send :: "'a \<Rightarrow> 'c \<Rightarrow> (unit, 'a) result \<times> 'c"
    and recv :: "'c \<Rightarrow> 'a option \<times> 'c"
    and contents :: "'c \<Rightarrow> 'a list"
    and is_open :: "'c \<Rightarrow> bool"
  assumes send_ok: "is_open c \<Longrightarrow> fst (send x c) = Ok ()"
    and send_open: "is_open c \<Longrightarrow> contents (snd (send x c)) = contents c @ [x]"
    and send_closed: "\<not> is_open c \<Longrightarrow> send x c = (Err x, c)"
    and send_keeps_open: "is_open (snd (send x c)) = is_open c"
    and recv_empty: "contents c = [] \<Longrightarrow> recv c = (None, c)"
    and recv_Cons: "contents c = x # xs \<Longrightarrow> fst (recv c) = Some x \<and> contents (snd (recv c)) = xs"
    and recv_keeps_open: "is_open (snd (recv c)) = is_open c"
begin

lemma send_many:
  "is_open c \<Longrightarrow> contents (fold (\<lambda>x c. snd (send x c)) xs c) = contents c @ xs"
  by (induction xs arbitrary: c) (simp_all add: send_open send_keeps_open)

lemma send_many_closed: "\<not> is_open c \<Longrightarrow> fold (\<lambda>x c. snd (send x c)) xs c = c"
  by (induction xs arbitrary: c) (simp_all add: send_closed)

lemma recv_after_send:
  "is_open c \<Longrightarrow> fst (recv (snd (send x c))) = Some (hd (contents c @ [x]))"
  using recv_Cons [of "snd (send x c)" "hd (contents c @ [x])" "tl (contents c @ [x])"]
  by (simp add: send_open)

lemma recv_shortens:
  "fst (recv c) = Some x \<Longrightarrow> length (contents (snd (recv c))) < length (contents c)"
  using recv_empty [of c] recv_Cons [of c] by (cases "contents c") auto

end

interpretation chan: fifo_channel chan_send chan_try_recv chan_queue chan_rx_open
  by unfold_locales (auto simp: chan_send_def chan_try_recv_def split: list.splits)

end
