(* ===== verification/Relay.thy ===== *)
theory Relay
  imports Host_Registry Rust_HashMap Rust_Channel
begin

text \<open>
  The relay registry (\<open>crates/core/src/relay.rs\<close>): the hosts a relay knows, capped by its
  configuration, and the command queue its owner task pumps. The address type of the
  NetherNet crate is a type parameter. The functions that iterate over the hash map take
  its hasher.
\<close>

section \<open>State and operations\<close>

datatype 'addr relay_command =
  CmdRegisterHost advertised_server
| CmdListHosts
| CmdBridgeToHost u64 'addr

record 'addr relay_service =
  rs_config :: relay_config
  rs_hosts :: "(u64, advertised_server) hashmap"
  rs_commands :: "'addr relay_command channel"

definition relay_new :: "relay_config \<Rightarrow> 'addr relay_service" where
  "relay_new config = \<lparr>rs_config = config, rs_hosts = hm_new, rs_commands = chan_new\<rparr>"

definition submit ::
  "'addr relay_command \<Rightarrow> 'addr relay_service \<Rightarrow> (unit, core_error) result \<times> 'addr relay_service" where
  "submit command rs =
     (let (res, c) = chan_send command (rs_commands rs)
      in (map_err (\<lambda>_. InvalidState (lit ''relay command channel closed'')) res,
          rs\<lparr>rs_commands := c\<rparr>))"

definition register_host :: "u64 hasher \<Rightarrow> advertised_server \<Rightarrow> 'addr relay_service \<Rightarrow> 'addr relay_service" where
  "register_host h server rs =
     (let hosts = rs_hosts rs;
          hosts' =
            (if hm_len hosts \<ge> max_advertised_hosts (rs_config rs)
                \<and> \<not> hm_contains_key hosts (sender_id server)
             then case hm_keys h hosts of
                    [] \<Rightarrow> hosts
                  | oldest # _ \<Rightarrow> hm_remove oldest hosts
             else hosts)
      in rs\<lparr>rs_hosts := hm_insert (sender_id server) server hosts'\<rparr>)"

definition host_list :: "u64 hasher \<Rightarrow> 'addr relay_service \<Rightarrow> advertised_server list" where
  "host_list h rs = hm_values h (rs_hosts rs)"

definition host_by_sender :: "'addr relay_service \<Rightarrow> u64 \<Rightarrow> advertised_server option" where
  "host_by_sender rs sid = hm_get (rs_hosts rs) sid"

text \<open>One turn of the loop of \<open>pump_commands\<close>, and the loop. \<open>hs i\<close> is the hasher of the turn
  that handles the \<open>i\<close>-th command.\<close>

fun handle_command :: "u64 hasher \<Rightarrow> 'addr relay_command \<Rightarrow> 'addr relay_service \<Rightarrow> 'addr relay_service" where
  "handle_command h (CmdRegisterHost server) rs = register_host h server rs"
| "handle_command h CmdListHosts rs = (let _ = host_list h rs in rs)"
| "handle_command h (CmdBridgeToHost advertised_sender_id joiner_addr) rs = rs"

lemma rs_commands_handle [simp]: "rs_commands (handle_command h c rs) = rs_commands rs"
  by (cases c) (simp_all add: register_host_def Let_def)

function pump_loop :: "(nat \<Rightarrow> u64 hasher) \<Rightarrow> nat \<Rightarrow> 'addr relay_service \<Rightarrow> nat \<times> 'addr relay_service" where
  "pump_loop hs handled rs =
     (case chan_try_recv (rs_commands rs) of
        (None, c) \<Rightarrow> (handled, rs\<lparr>rs_commands := c\<rparr>)
      | (Some command, c) \<Rightarrow>
          pump_loop hs (handled + 1) (handle_command (hs handled) command (rs\<lparr>rs_commands := c\<rparr>)))"
  by pat_completeness auto
termination
  by (relation "measure (\<lambda>(_, _, rs). length (chan_queue (rs_commands rs)))")
    (auto simp: chan_try_recv_def split: list.splits)

declare pump_loop.simps [simp del]

definition pump_commands :: "(nat \<Rightarrow> u64 hasher) \<Rightarrow> 'addr relay_service \<Rightarrow> nat \<times> 'addr relay_service" where
  "pump_commands hs rs = pump_loop hs 0 rs"

section \<open>Invariant\<close>

definition relay_ok :: "'addr relay_service \<Rightarrow> bool" where
  "relay_ok rs \<longleftrightarrow> hm_ok (rs_hosts rs)
     \<and> (\<forall>k s. hm_get (rs_hosts rs) k = Some s \<longrightarrow> sender_id s = k)
     \<and> hm_len (rs_hosts rs) \<le> max 1 (max_advertised_hosts (rs_config rs))"

lemma relay_okI:
  assumes "hm_ok (rs_hosts rs)" and "\<And>k s. hm_get (rs_hosts rs) k = Some s \<Longrightarrow> sender_id s = k"
    and "hm_len (rs_hosts rs) \<le> max 1 (max_advertised_hosts (rs_config rs))"
  shows "relay_ok rs"
  using assms by (simp add: relay_ok_def)

lemma rs_config_register [simp]: "rs_config (register_host h server rs) = rs_config rs"
  by (simp add: register_host_def Let_def)

lemma rs_commands_register [simp]: "rs_commands (register_host h server rs) = rs_commands rs"
  by (simp add: register_host_def Let_def)

text \<open>The case a registration falls into: the registry is full and the id is new, or not.\<close>

definition must_evict :: "advertised_server \<Rightarrow> 'addr relay_service \<Rightarrow> bool" where
  "must_evict server rs \<longleftrightarrow>
     hm_len (rs_hosts rs) \<ge> max_advertised_hosts (rs_config rs)
     \<and> hm_get (rs_hosts rs) (sender_id server) = None \<and> rs_hosts rs \<noteq> hm_new"

lemma register_evicting:
  assumes "must_evict server rs"
  shows "hm_keys h (rs_hosts rs) \<noteq> []"
    and "rs_hosts (register_host h server rs) =
      hm_insert (sender_id server) server (hm_remove (hd (hm_keys h (rs_hosts rs))) (rs_hosts rs))"
proof -
  have "length (hm_keys h (rs_hosts rs)) \<noteq> 0"
    using assms by (simp add: must_evict_def hm_eq_empty)
  then show ne: "hm_keys h (rs_hosts rs) \<noteq> []" by (rule contrapos_nn) (simp only: list.size)
  then show "rs_hosts (register_host h server rs) =
      hm_insert (sender_id server) server (hm_remove (hd (hm_keys h (rs_hosts rs))) (rs_hosts rs))"
    using assms
    by (cases "hm_keys h (rs_hosts rs)")
      (simp_all add: register_host_def must_evict_def hm_contains_key_def Let_def)
qed

lemma register_keeping:
  assumes "\<not> must_evict server rs"
  shows "rs_hosts (register_host h server rs) = hm_insert (sender_id server) server (rs_hosts rs)"
  using assms
  by (auto simp: register_host_def must_evict_def hm_contains_key_def hm_eval
      split: list.splits)

lemma evicted_in_dom:
  assumes "hm_ok (rs_hosts rs)" and "must_evict server rs"
  shows "hd (hm_keys h (rs_hosts rs)) \<in> dom (hm_get (rs_hosts rs))"
  using register_evicting(1) [OF assms(2), of h] hm_set_keys [OF assms(1), of h]
  by (metis hd_in_set)

lemma get_register:
  "hm_get (rs_hosts (register_host h server rs)) k =
     (if k = sender_id server then Some server
      else if must_evict server rs \<and> k = hd (hm_keys h (rs_hosts rs)) then None
      else hm_get (rs_hosts rs) k)"
  by (cases "must_evict server rs") (simp_all add: register_evicting register_keeping)

lemma relay_ok_new [simp, intro]: "relay_ok (relay_new config)"
  by (simp add: relay_ok_def relay_new_def)

lemma hm_len_register:
  assumes "hm_ok (rs_hosts rs)"
  shows "hm_len (rs_hosts (register_host h server rs)) =
    (if must_evict server rs \<or> hm_get (rs_hosts rs) (sender_id server) \<noteq> None
     then hm_len (rs_hosts rs) else Suc (hm_len (rs_hosts rs)))"
proof (cases "must_evict server rs")
  case True
  obtain v where v: "hm_get (rs_hosts rs) (hd (hm_keys h (rs_hosts rs))) = Some v"
    using evicted_in_dom [OF assms True, of h] by blast
  have "rs_hosts rs \<noteq> hm_new" and none: "hm_get (rs_hosts rs) (sender_id server) = None"
    using True by (simp_all add: must_evict_def)
  then have "0 < hm_len (rs_hosts rs)" using hm_eq_empty [of "rs_hosts rs"] by simp
  then show ?thesis
    using True assms none v
    by (simp add: register_evicting hm_len_insert hm_len_remove hm_contains_key_def)
next
  case False
  then show ?thesis using assms by (simp add: register_keeping hm_len_insert hm_contains_key_def)
qed

lemma relay_ok_register [intro]:
  assumes "relay_ok rs"
  shows "relay_ok (register_host h server rs)"
proof (rule relay_okI)
  show "hm_ok (rs_hosts (register_host h server rs))"
    using assms by (cases "must_evict server rs")
      (auto simp: relay_ok_def register_evicting register_keeping)
next
  fix k s
  assume "hm_get (rs_hosts (register_host h server rs)) k = Some s"
  then show "sender_id s = k"
    using assms by (auto simp: get_register relay_ok_def split: if_splits)
next
  have "hm_ok (rs_hosts rs)" using assms by (simp add: relay_ok_def)
  moreover have "rs_hosts rs = hm_new \<Longrightarrow> hm_len (rs_hosts rs) = 0"
    by (simp add: hm_eq_empty)
  ultimately show "hm_len (rs_hosts (register_host h server rs))
      \<le> max 1 (max_advertised_hosts (rs_config (register_host h server rs)))"
    using assms by (auto simp: hm_len_register relay_ok_def must_evict_def)
qed

lemma relay_ok_handle [intro]: "relay_ok rs \<Longrightarrow> relay_ok (handle_command h c rs)"
  by (cases c) (auto simp: Let_def)

lemma relay_ok_commands [simp]: "relay_ok (rs\<lparr>rs_commands := c\<rparr>) = relay_ok rs"
  by (simp add: relay_ok_def)

lemma relay_ok_submit [intro]: "relay_ok rs \<Longrightarrow> relay_ok (snd (submit c rs))"
  by (simp add: submit_def case_prod_beta Let_def)

lemma relay_ok_pump_loop: "relay_ok rs \<Longrightarrow> relay_ok (snd (pump_loop hs n rs))"
proof (induction hs n rs rule: pump_loop.induct)
  case (1 hs n rs)
  show ?case
  proof (cases "chan_try_recv (rs_commands rs)")
    case (Pair x c)
    then show ?thesis
      using 1 by (cases x) (auto simp: pump_loop.simps [of hs n rs] relay_ok_handle)
  qed
qed

section \<open>The registry contract\<close>

lemma in_host_list:
  assumes "relay_ok rs"
  shows "a \<in> set (host_list h rs) \<longleftrightarrow> host_by_sender rs (sender_id a) = Some a"
proof -
  have "set (host_list h rs) = ran (hm_get (rs_hosts rs))"
    using assms unfolding host_list_def relay_ok_def by (simp add: hm_set_values)
  then show ?thesis
    using assms by (auto simp: ran_def host_by_sender_def relay_ok_def)
qed

interpretation relay: host_registry "register_host h" host_by_sender "host_list h'" relay_ok
  for h h'
  by unfold_locales
    (auto simp: host_by_sender_def get_register in_host_list, simp add: relay_ok_def)

section \<open>The relay as a machine\<close>

text \<open>
  A step is one public call: a submitted command, a direct registration, or a pump of the
  queue. The hashers are part of the step, so a run may see any iteration orders.
\<close>

inductive relay_step :: "'addr relay_service \<Rightarrow> unit \<Rightarrow> 'addr relay_service \<Rightarrow> bool" where
  step_submit: "relay_step rs () (snd (submit c rs))"
| step_register: "relay_step rs () (register_host h server rs)"
| step_pump: "relay_step rs () (snd (pump_commands hs rs))"

inductive_cases relay_stepE: "relay_step rs l rs'"

definition relay_init :: "relay_config \<Rightarrow> 'addr relay_service \<Rightarrow> bool" where
  "relay_init config rs \<longleftrightarrow> rs = relay_new config"

lemma rs_config_submit [simp]: "rs_config (snd (submit c rs)) = rs_config rs"
  by (simp add: submit_def case_prod_beta Let_def)

lemma rs_config_handle [simp]: "rs_config (handle_command h c rs) = rs_config rs"
  by (cases c) (simp_all add: Let_def)

lemma rs_config_pump_loop [simp]: "rs_config (snd (pump_loop hs n rs)) = rs_config rs"
proof (induction hs n rs rule: pump_loop.induct)
  case (1 hs n rs)
  show ?case
  proof (cases "chan_try_recv (rs_commands rs)")
    case (Pair x c)
    then show ?thesis
      using 1 by (cases x) (auto simp: pump_loop.simps [of hs n rs])
  qed
qed

interpretation relay_sys: invariant_system "relay_init config" relay_step
  "\<lambda>rs. relay_ok rs \<and> rs_config rs = config"
  for config
proof unfold_locales
  fix s :: "'a relay_service"
  assume "relay_init config s"
  then show "relay_ok s \<and> rs_config s = config"
    by (simp add: relay_init_def) (simp add: relay_new_def)
next
  fix s t :: "'a relay_service" and l
  assume "relay_ok s \<and> rs_config s = config" and "relay_step s l t"
  then show "relay_ok t \<and> rs_config t = config"
    by (auto elim!: relay_stepE simp: pump_commands_def relay_ok_pump_loop)
qed

section \<open>Pumping\<close>

text \<open>The effect of a command list, without the queue.\<close>

fun handle_commands ::
  "(nat \<Rightarrow> u64 hasher) \<Rightarrow> nat \<Rightarrow> 'addr relay_command list \<Rightarrow> 'addr relay_service \<Rightarrow> 'addr relay_service" where
  "handle_commands hs n [] rs = rs"
| "handle_commands hs n (c # cs) rs = handle_commands hs (n + 1) cs (handle_command (hs n) c rs)"

lemma handle_command_commands:
  "handle_command h c (rs\<lparr>rs_commands := q\<rparr>) = (handle_command h c rs)\<lparr>rs_commands := q\<rparr>"
  by (cases c) (simp_all add: register_host_def Let_def)

lemma handle_commands_commands:
  "handle_commands hs n cs (rs\<lparr>rs_commands := q\<rparr>) = (handle_commands hs n cs rs)\<lparr>rs_commands := q\<rparr>"
  by (induction hs n cs rs rule: handle_commands.induct) (simp_all add: handle_command_commands)

lemma pump_loop_eq:
  "chan_queue (rs_commands rs) = cs \<Longrightarrow>
    pump_loop hs n rs =
      (n + length cs, (handle_commands hs n cs rs)\<lparr>rs_commands := (rs_commands rs)\<lparr>chan_queue := []\<rparr>\<rparr>)"
proof (induction cs arbitrary: n rs)
  case Nil
  then show ?case
    by (simp add: pump_loop.simps [of hs n rs] chan_try_recv_def)
next
  case (Cons c cs)
  let ?rs = "rs\<lparr>rs_commands := (rs_commands rs)\<lparr>chan_queue := cs\<rparr>\<rparr>"
  have "pump_loop hs n rs = pump_loop hs (n + 1) (handle_command (hs n) c ?rs)"
    using Cons.prems by (simp add: pump_loop.simps [of hs n rs] chan_try_recv_def)
  also have "\<dots> = (n + 1 + length cs, (handle_commands hs (n + 1) cs (handle_command (hs n) c ?rs))
      \<lparr>rs_commands := (rs_commands ?rs)\<lparr>chan_queue := []\<rparr>\<rparr>)"
    by (subst Cons.IH) simp_all
  finally show ?case by (simp add: handle_command_commands handle_commands_commands)
qed

section \<open>Specification of registration\<close>

text \<open>
  The abstract registry is a finite map. Registering a known id, or into a registry with
  room, only updates the map; otherwise one entry, of the implementation's choice, makes
  room. A registry of capacity zero still holds the last registration.
\<close>

definition register_spec ::
  "usize \<Rightarrow> advertised_server \<Rightarrow> (u64 \<rightharpoonup> advertised_server) \<Rightarrow> (u64 \<rightharpoonup> advertised_server) \<Rightarrow> bool" where
  "register_spec cap server A A' \<longleftrightarrow>
     (if card (dom A) < cap \<or> sender_id server \<in> dom A \<or> dom A = {}
      then A' = A(sender_id server \<mapsto> server)
      else (\<exists>victim\<in>dom A. A' = (A(victim := None))(sender_id server \<mapsto> server)))"

abbreviation relay_abs :: "'addr relay_service \<Rightarrow> u64 \<rightharpoonup> advertised_server" where
  "relay_abs rs \<equiv> hm_get (rs_hosts rs)"

lemma hm_new_iff_dom: "hm_ok m \<Longrightarrow> dom (hm_get m) = {} \<longleftrightarrow> m = hm_new"
  by (metis card_eq_0_iff hm.finite_dom hm_eq_empty hm_len_card)

lemma must_evict_iff:
  assumes "relay_ok rs"
  shows "must_evict server rs \<longleftrightarrow>
    \<not> (card (dom (relay_abs rs)) < max_advertised_hosts (rs_config rs)
       \<or> sender_id server \<in> dom (relay_abs rs) \<or> dom (relay_abs rs) = {})"
proof -
  have ok: "hm_ok (rs_hosts rs)" using assms by (simp add: relay_ok_def)
  show ?thesis
    unfolding must_evict_def hm_new_iff_dom [OF ok, symmetric] hm_len_card [OF ok] by auto
qed

text \<open>A hasher that puts a given key first.\<close>

definition first_hasher :: "'k \<Rightarrow> 'k hasher" where
  "first_hasher v k = (if k = v then 0 else 1)"

lemma sort_key_first:
  assumes "x \<in> set xs" and "f x = 0" and "\<And>y. y \<in> set xs \<Longrightarrow> f y = (0::nat) \<Longrightarrow> y = x"
  shows "hd (sort_key f xs) = x"
proof -
  let ?ys = "sort_key f xs"
  have ne: "?ys \<noteq> []" using assms(1) by (metis empty_iff empty_set set_sort)
  then obtain y ys where ys: "?ys = y # ys" by (cases ?ys) auto
  have "x \<in> set (y # ys)" using assms(1) ys by (metis set_sort)
  moreover have "sorted (map f (y # ys))" using sorted_sort_key [of f xs] ys by simp
  ultimately have "f y = 0" using assms(2) by auto
  then have "y = x" using assms(3) ys by (metis list.set_intros(1) set_sort)
  then show ?thesis using ys by simp
qed

lemma hd_keys_first_hasher:
  assumes "hm_ok m" and "v \<in> dom (hm_get m)"
  shows "hd (hm_keys (first_hasher v) m) = v"
proof -
  obtain a where "hm_get m v = Some a" using assms(2) by blast
  then have a: "(v, a) \<in> set m" by (simp add: hm_get_def map_of_SomeD)
  have "hd (hm_iter (first_hasher v) m) = (v, a)"
    unfolding hm_iter_def
  proof (rule sort_key_first)
    fix y assume y: "y \<in> set m" "(case y of (k, w) \<Rightarrow> first_hasher v k) = 0"
    obtain k w where kw: "y = (k, w)" by fastforce
    with y have "k = v" by (simp add: first_hasher_def split: if_splits)
    with y kw a assms(1) show "y = (v, a)"
      by (auto simp: hm_ok_def dest: eq_key_imp_eq_value)
  qed (use a in \<open>simp_all add: first_hasher_def\<close>)
  moreover have "hm_iter (first_hasher v) m \<noteq> []"
    using a hm_set_iter [of "first_hasher v" m] by (metis empty_iff empty_set)
  ultimately show ?thesis by (simp add: hm_keys_def hd_map)
qed

section \<open>Properties\<close>

definition example_server :: "u64 \<Rightarrow> advertised_server" where
  "example_server k = \<lparr>sender_id = k, ad_data = default_advertisement\<rparr>"

abbreviation empty_relay :: "usize \<Rightarrow> unit relay_service" where
  "empty_relay cap \<equiv> relay_new \<lparr>max_advertised_hosts = cap\<rparr>"

abbreviation full_relay :: "unit relay_service" where
  "full_relay \<equiv>
     register_host (\<lambda>_. 0) (example_server 2) (register_host (\<lambda>_. 0) (example_server 1) (empty_relay 2))"

text \<open>
  In every state the relay can reach, through any interleaving of submissions,
  registrations and pumps and with any iteration orders, it holds at most the configured
  number of hosts (and one host when the configured number is zero).
\<close>

lemma relay_capacity:
  assumes "reachable (relay_init config) relay_step rs"
  shows "hm_len (rs_hosts rs) \<le> max 1 (max_advertised_hosts config)"
  using relay_sys.inv_reachable [OF assms] by (auto simp: relay_ok_def)

lemma register_refines:
  assumes "relay_ok rs"
  shows "register_spec (max_advertised_hosts (rs_config rs)) server
    (relay_abs rs) (relay_abs (register_host h server rs))"
proof (cases "must_evict server rs")
  case True
  have "hd (hm_keys h (rs_hosts rs)) \<in> dom (relay_abs rs)"
    using evicted_in_dom [OF _ True] assms by (simp add: relay_ok_def)
  moreover have "relay_abs (register_host h server rs) =
      ((relay_abs rs)(hd (hm_keys h (rs_hosts rs)) := None))(sender_id server \<mapsto> server)"
    using True by (auto simp: get_register)
  ultimately show ?thesis
    using True unfolding register_spec_def must_evict_iff [OF assms] by (simp only: if_False) blast
next
  case False
  then have "relay_abs (register_host h server rs) = (relay_abs rs)(sender_id server \<mapsto> server)"
    by (auto simp: get_register)
  then show ?thesis
    using False unfolding register_spec_def must_evict_iff [OF assms] by simp
qed

text \<open>
  A registry of capacity zero is not empty after a registration: the cap of the
  configuration is exceeded by one.
\<close>

lemma capacity_zero_holds_host: "hm_len (rs_hosts (register_host h server (relay_new \<lparr>max_advertised_hosts = 0\<rparr>))) = 1"
  by (simp add: register_host_def relay_new_def hm_eval)

text \<open>
  C22: registration implements its specification: it updates the entry of the sender id
  and keeps every other host, except that a full registry gives up exactly one host for
  a new one.
\<close>

theorem register_host_refines:
  assumes "relay_ok rs"
  shows "register_spec (max_advertised_hosts (rs_config rs)) server
    (relay_abs rs) (relay_abs (register_host h server rs))"
  using assms by (rule register_refines)

theorem register_host_refines_witness:
  "register_spec (max_advertised_hosts (rs_config full_relay)) (example_server 3)
    (relay_abs full_relay) (relay_abs (register_host (\<lambda>_. 0) (example_server 3) full_relay))"
  by (rule register_host_refines) (intro relay_ok_register relay_ok_new)

text \<open>
  Which host a full registry gives up depends on the iteration order of the hash map
  alone: for every host it holds there is a hasher that evicts it, whatever its age.
\<close>

lemma eviction_ignores_age:
  assumes "relay_ok rs" and "must_evict server rs" and "victim \<in> dom (relay_abs rs)"
  shows "\<exists>h. relay_abs (register_host h server rs) =
    ((relay_abs rs)(victim := None))(sender_id server \<mapsto> server)"
proof
  have "hd (hm_keys (first_hasher victim) (rs_hosts rs)) = victim"
    by (rule hd_keys_first_hasher) (use assms in \<open>simp_all add: relay_ok_def\<close>)
  then show "relay_abs (register_host (first_hasher victim) server rs) =
      ((relay_abs rs)(victim := None))(sender_id server \<mapsto> server)"
    using assms(2) by (auto simp: get_register)
qed

text \<open>
  C34: one pump handles every queued command exactly once and in order, returns their
  number and leaves the queue empty; the hosts are those the commands produce one by one.
\<close>

theorem pump_commands_drains:
  "pump_commands hs rs =
     (length (chan_queue (rs_commands rs)),
      (handle_commands hs 0 (chan_queue (rs_commands rs)) rs)
        \<lparr>rs_commands := (rs_commands rs)\<lparr>chan_queue := []\<rparr>\<rparr>)"
  by (simp add: pump_commands_def pump_loop_eq)

text \<open>
  A registered server is in the host list, found under its sender id, and it is the
  only entry with this id; after any sequence of registrations the last one is found
  under its id.
\<close>

lemma registered_host_listed:
  assumes "relay_ok rs"
  shows "server \<in> set (host_list h' (register_host h server rs))
    \<and> (\<forall>b\<in>set (host_list h' (register_host h server rs)). sender_id b = sender_id server \<longrightarrow> b = server)
    \<and> (as \<noteq> [] \<longrightarrow> host_by_sender (fold (register_host h) as rs) (sender_id (last as)) = Some (last as))"
  using relay.published_is_listed [OF assms] relay.republish_replaces [OF assms]
    relay.last_published_wins [OF assms] by blast

end
