(* ===== verification/Progress.thy ===== *)
theory Progress
  imports Mineshaft_Prelude
begin

text \<open>
  Two contracts beyond invariants that the machines of this library satisfy. The locale
  \<open>functional_refinement\<close>: every step of a machine changes an abstraction of its state as a
  function of the abstract operations its event stands for, and nothing else does. The
  locale \<open>leads_to\<close>: while a goal is not reached, a condition is kept, a rank does not grow,
  and some helpful event can happen and lowers the rank; so the goal is reached on every
  infinite run that is weakly fair to the helpful events.
\<close>

section \<open>Refinement of a deterministic specification\<close>

locale functional_refinement = invariant_system init step inv
  for init :: "'s \<Rightarrow> bool" and step :: "'s \<Rightarrow> 'l \<Rightarrow> 's \<Rightarrow> bool" and inv :: "'s \<Rightarrow> bool" +
  fixes abs :: "'s \<Rightarrow> 'a"
    and apply_op :: "'o \<Rightarrow> 'a \<Rightarrow> 'a"
    and ops :: "'l \<Rightarrow> 'o list"
  assumes abs_step: "inv s \<Longrightarrow> step s l t \<Longrightarrow> abs t = fold apply_op (ops l) (abs s)"
begin

lemma abs_runs: "runs step s ls t \<Longrightarrow> inv s \<Longrightarrow> abs t = fold apply_op (concat (map ops ls)) (abs s)"
  by (induction rule: runs.induct) (auto simp: abs_step inv_step)

lemma abs_runs_init: "init s \<Longrightarrow> runs step s ls t \<Longrightarrow> abs t = fold apply_op (concat (map ops ls)) (abs s)"
  using abs_runs inv_init by blast

lemma abs_silent: "inv s \<Longrightarrow> step s l t \<Longrightarrow> ops l = [] \<Longrightarrow> abs t = abs s"
  using abs_step by fastforce

end

section \<open>Infinite runs and fairness\<close>

definition infinite_run :: "('s \<Rightarrow> 'l \<Rightarrow> 's \<Rightarrow> bool) \<Rightarrow> (nat \<Rightarrow> 's) \<Rightarrow> (nat \<Rightarrow> 'l) \<Rightarrow> bool" where
  "infinite_run step ss es \<longleftrightarrow> (\<forall>i. step (ss i) (es i) (ss (Suc i)))"

text \<open>A class of events that stays possible from some point on is taken at some later point.\<close>

definition weakly_fair :: "('s \<Rightarrow> 'l \<Rightarrow> 's \<Rightarrow> bool) \<Rightarrow> ('l \<Rightarrow> bool) \<Rightarrow> (nat \<Rightarrow> 's) \<Rightarrow> (nat \<Rightarrow> 'l) \<Rightarrow> bool" where
  "weakly_fair step helpful ss es \<longleftrightarrow>
     (\<forall>i. (\<forall>j\<ge>i. \<exists>e t. helpful e \<and> step (ss j) e t) \<longrightarrow> (\<exists>j\<ge>i. helpful (es j)))"

lemma infinite_run_step: "infinite_run step ss es \<Longrightarrow> step (ss i) (es i) (ss (Suc i))"
  by (simp add: infinite_run_def)

lemma infinite_run_reachable:
  assumes "init (ss 0)" and "infinite_run step ss es"
  shows "reachable init step (ss i)"
proof (induction i)
  case 0
  show ?case using assms(1) by (rule reach_init)
next
  case (Suc i)
  then show ?case using infinite_run_step [OF assms(2)] by (rule reach_step)
qed

locale leads_to =
  fixes step :: "'s \<Rightarrow> 'l \<Rightarrow> 's \<Rightarrow> bool"
    and helpful :: "'l \<Rightarrow> bool"
    and waiting :: "'s \<Rightarrow> bool"
    and goal :: "'s \<Rightarrow> bool"
    and rank :: "'s \<Rightarrow> nat"
  assumes unless: "waiting s \<Longrightarrow> \<not> goal s \<Longrightarrow> step s e t \<Longrightarrow> goal t \<or> waiting t \<and> rank t \<le> rank s"
    and lowers: "waiting s \<Longrightarrow> \<not> goal s \<Longrightarrow> step s e t \<Longrightarrow> helpful e \<Longrightarrow> goal t \<or> rank t < rank s"
    and enabled: "waiting s \<Longrightarrow> \<not> goal s \<Longrightarrow> \<exists>e t. helpful e \<and> step s e t"
begin

lemma waits:
  assumes "infinite_run step ss es" and "waiting (ss i)" and "\<forall>j\<ge>i. \<not> goal (ss j)" and "i \<le> j"
  shows "waiting (ss j) \<and> rank (ss j) \<le> rank (ss i)"
  using assms(4)
proof (induction j rule: dec_induct)
  case base
  then show ?case using assms(2) by simp
next
  case (step n)
  then show ?case
    using unless [OF _ _ infinite_run_step [OF assms(1)], of n] assms(3) by fastforce
qed

lemma reaches:
  assumes run: "infinite_run step ss es" and fair: "weakly_fair step helpful ss es" and "waiting (ss i)"
  shows "\<exists>j\<ge>i. goal (ss j)"
  using assms(3)
proof (induction "rank (ss i)" arbitrary: i rule: less_induct)
  case less
  show ?case
  proof (rule ccontr)
    assume "\<not> ?thesis"
    then have never: "\<forall>j\<ge>i. \<not> goal (ss j)" by blast
    then have "\<forall>j\<ge>i. \<exists>e t. helpful e \<and> step (ss j) e t"
      using waits [OF run less.prems never] enabled by blast
    then obtain j where j: "i \<le> j" "helpful (es j)"
      using fair by (auto simp: weakly_fair_def)
    have "waiting (ss (Suc j))" using waits [OF run less.prems never, of "Suc j"] j(1) by simp
    moreover have "rank (ss (Suc j)) < rank (ss i)"
      using lowers [OF _ _ infinite_run_step [OF run] j(2)] waits [OF run less.prems never j(1)] never j(1)
      by (meson le_SucI less_le_trans)
    ultimately have "\<exists>k\<ge>Suc j. goal (ss k)" using less.hyps by blast
    then show False using never j(1) by (meson Suc_leD le_trans)
  qed
qed

end

end
