(* ===== verification/Relay_Machine.thy ===== *)
theory Relay_Machine
  imports Relay Progress "HOL-Library.Sublist"
begin

text \<open>
  The relay service used by several tasks: any task may submit a command or register a host
  at any moment, also while the owner task pumps. A pump holds the lock of the receiver from
  its start to its end, so pumps do not overlap; each of its turns takes one command. What
  was submitted and what was taken is read off the events of a run; what a command does to
  the hosts is specified apart from the code, over the abstract registry.
\<close>

section \<open>Steps\<close>

record 'addr relay_machine =
  rm_service :: "'addr relay_service"
  rm_pump :: "nat option" \<comment> \<open>commands handled so far by the running pump\<close>

datatype 'addr relay_event =
  RmSubmit "'addr relay_command"
| RmSubmitFailed "'addr relay_command"
| RmRegister advertised_server
| RmPumpStart
| RmPumpTurn "'addr relay_command"
| RmPumpEnd nat

inductive relay_task_step :: "'addr relay_machine \<Rightarrow> 'addr relay_event \<Rightarrow> 'addr relay_machine \<Rightarrow> bool" where
  rm_submit: "submit c (rm_service s) = (Ok (), rs) \<Longrightarrow>
    relay_task_step s (RmSubmit c) (s\<lparr>rm_service := rs\<rparr>)"
| rm_submit_error: "submit c (rm_service s) = (Err e, rs) \<Longrightarrow>
    relay_task_step s (RmSubmitFailed c) (s\<lparr>rm_service := rs\<rparr>)"
| rm_register: "relay_task_step s (RmRegister server) (s\<lparr>rm_service := register_host h server (rm_service s)\<rparr>)"
| rm_pump_start: "rm_pump s = None \<Longrightarrow> relay_task_step s RmPumpStart (s\<lparr>rm_pump := Some 0\<rparr>)"
| rm_pump_turn: "rm_pump s = Some n \<Longrightarrow> chan_try_recv (rs_commands (rm_service s)) = (Some c, ch) \<Longrightarrow>
    relay_task_step s (RmPumpTurn c)
      (s\<lparr>rm_service := handle_command h c ((rm_service s)\<lparr>rs_commands := ch\<rparr>), rm_pump := Some (n + 1)\<rparr>)"
| rm_pump_end: "rm_pump s = Some n \<Longrightarrow> chan_try_recv (rs_commands (rm_service s)) = (None, ch) \<Longrightarrow>
    relay_task_step s (RmPumpEnd n) (s\<lparr>rm_service := (rm_service s)\<lparr>rs_commands := ch\<rparr>, rm_pump := None\<rparr>)"

inductive_cases relay_task_stepE: "relay_task_step s e t"
inductive_cases pump_turnE: "relay_task_step s (RmPumpTurn c) t"

definition relay_task_init :: "relay_config \<Rightarrow> 'addr relay_machine \<Rightarrow> bool" where
  "relay_task_init config s \<longleftrightarrow> s = \<lparr>rm_service = relay_new config, rm_pump = None\<rparr>"

abbreviation rm_queue :: "'addr relay_machine \<Rightarrow> 'addr relay_command list" where
  "rm_queue s \<equiv> chan_queue (rs_commands (rm_service s))"

abbreviation rm_hosts :: "'addr relay_machine \<Rightarrow> u64 \<rightharpoonup> advertised_server" where
  "rm_hosts s \<equiv> relay_abs (rm_service s)"

text \<open>A pump that no other task interrupts does what \<open>pump_commands\<close> does.\<close>

lemma pump_turns:
  "rm_pump s = Some n \<Longrightarrow> runs relay_task_step s
     (map RmPumpTurn (rm_queue s) @ [RmPumpEnd (fst (pump_loop hs n (rm_service s)))])
     (s\<lparr>rm_service := snd (pump_loop hs n (rm_service s)), rm_pump := None\<rparr>)"
proof (induction "rm_queue s" arbitrary: n s)
  case Nil
  then have "chan_try_recv (rs_commands (rm_service s)) = (None, rs_commands (rm_service s))"
    by (simp add: chan_try_recv_def)
  with Nil show ?case
    using rm_pump_end [of s n] by (simp add: pump_loop.simps [of hs n] runs_Cons_iff)
next
  case (Cons c cs)
  let ?ch = "(rs_commands (rm_service s))\<lparr>chan_queue := cs\<rparr>"
  let ?t = "s\<lparr>rm_service := handle_command (hs n) c ((rm_service s)\<lparr>rs_commands := ?ch\<rparr>), rm_pump := Some (n + 1)\<rparr>"
  have recv: "chan_try_recv (rs_commands (rm_service s)) = (Some c, ?ch)"
    using Cons.hyps(2) [symmetric] by (simp add: chan_try_recv_def)
  then have "relay_task_step s (RmPumpTurn c) ?t" using Cons.prems by (rule rm_pump_turn [rotated])
  moreover have "pump_loop hs n (rm_service s) = pump_loop hs (n + 1) (rm_service ?t)"
    using recv by (simp add: pump_loop.simps [of hs n "rm_service s"])
  ultimately show ?case
    using Cons.hyps(1) [of ?t "n + 1"] Cons.hyps(2) [symmetric] by (auto simp: runs_Cons_iff)
qed

lemma uninterrupted_pump:
  assumes "rm_pump s = None"
  shows "runs relay_task_step s
     (RmPumpStart # map RmPumpTurn (rm_queue s) @ [RmPumpEnd (fst (pump_commands hs (rm_service s)))])
     (s\<lparr>rm_service := snd (pump_commands hs (rm_service s))\<rparr>)"
proof -
  have "s\<lparr>rm_service := x, rm_pump := None\<rparr> = s\<lparr>rm_service := x\<rparr>" for x
    using assms by (cases s) simp
  then show ?thesis
    using runs_cons [where step = relay_task_step, OF rm_pump_start [OF assms]]
      pump_turns [of "s\<lparr>rm_pump := Some 0\<rparr>" 0 hs]
    by (simp add: pump_commands_def)
qed

section \<open>Specification of a run\<close>

definition submitted_in :: "'addr relay_event list \<Rightarrow> 'addr relay_command list" where
  "submitted_in es = concat (map (\<lambda>e. case e of RmSubmit c \<Rightarrow> [c] | _ \<Rightarrow> []) es)"

definition taken_in :: "'addr relay_event list \<Rightarrow> 'addr relay_command list" where
  "taken_in es = concat (map (\<lambda>e. case e of RmPumpTurn c \<Rightarrow> [c] | _ \<Rightarrow> []) es)"

text \<open>A registration command registers; the other two commands leave the hosts as they are.\<close>

fun command_spec ::
  "usize \<Rightarrow> 'addr relay_command \<Rightarrow> (u64 \<rightharpoonup> advertised_server) \<Rightarrow> (u64 \<rightharpoonup> advertised_server) \<Rightarrow> bool" where
  "command_spec cap (CmdRegisterHost server) A A' \<longleftrightarrow> register_spec cap server A A'"
| "command_spec cap CmdListHosts A A' \<longleftrightarrow> A' = A"
| "command_spec cap (CmdBridgeToHost sid addr) A A' \<longleftrightarrow> A' = A"

fun event_spec ::
  "usize \<Rightarrow> 'addr relay_event \<Rightarrow> (u64 \<rightharpoonup> advertised_server) \<Rightarrow> (u64 \<rightharpoonup> advertised_server) \<Rightarrow> bool" where
  "event_spec cap (RmRegister server) A A' \<longleftrightarrow> register_spec cap server A A'"
| "event_spec cap (RmPumpTurn c) A A' \<longleftrightarrow> command_spec cap c A A'"
| "event_spec cap _ A A' \<longleftrightarrow> A' = A"

text \<open>The events of a run, applied to the registry one after the other.\<close>

fun history_spec ::
  "usize \<Rightarrow> 'addr relay_event list \<Rightarrow> (u64 \<rightharpoonup> advertised_server) \<Rightarrow> (u64 \<rightharpoonup> advertised_server) \<Rightarrow> bool" where
  "history_spec cap [] A A' \<longleftrightarrow> A' = A"
| "history_spec cap (e # es) A A' \<longleftrightarrow> (\<exists>B. event_spec cap e A B \<and> history_spec cap es B A')"

section \<open>Order, effect and capacity\<close>

definition relay_inv :: "relay_config \<Rightarrow> 'addr relay_machine \<Rightarrow> bool" where
  "relay_inv config s \<longleftrightarrow> chan_rx_open (rs_commands (rm_service s))
     \<and> rs_config (rm_service s) = config \<and> relay_ok (rm_service s)"

lemma submit_Ok:
  "chan_rx_open (rs_commands rs) \<Longrightarrow>
    submit c rs = (Ok (), rs\<lparr>rs_commands := (rs_commands rs)\<lparr>chan_queue := chan_queue (rs_commands rs) @ [c]\<rparr>\<rparr>)"
  by (simp add: submit_def chan_send_def)

lemma handle_command_spec:
  assumes "relay_ok rs"
  shows "command_spec (max_advertised_hosts (rs_config rs)) c (relay_abs rs)
    (relay_abs (handle_command h c (rs\<lparr>rs_commands := ch\<rparr>)))"
  using register_refines [of "rs\<lparr>rs_commands := ch\<rparr>"] assms by (cases c) simp_all

text \<open>One step: the invariant is kept, the queue is a queue, and the hosts change as specified.\<close>

lemma relay_task_step_ok:
  assumes "relay_inv config s" and "relay_task_step s e t"
  shows "relay_inv config t" and "rm_queue s @ submitted_in [e] = taken_in [e] @ rm_queue t"
    and "event_spec (max_advertised_hosts config) e (rm_hosts s) (rm_hosts t)"
proof -
  have ok: "relay_ok (rm_service s)" and cfg: "rs_config (rm_service s) = config"
    and rx: "chan_rx_open (rs_commands (rm_service s))" using assms(1) by (simp_all add: relay_inv_def)
  note defs = relay_inv_def submitted_in_def taken_in_def chan_try_recv_def
  from assms(2) have "relay_inv config t \<and> rm_queue s @ submitted_in [e] = taken_in [e] @ rm_queue t
    \<and> event_spec (max_advertised_hosts config) e (rm_hosts s) (rm_hosts t)"
  proof cases
    case (rm_submit c rs)
    then show ?thesis using ok cfg rx by (auto simp: defs submit_Ok)
  next
    case (rm_register server h)
    then show ?thesis using ok cfg rx register_refines [OF ok, of server h] by (auto simp: defs)
  next
    case (rm_pump_turn n c ch h)
    then show ?thesis
      using ok cfg rx handle_command_spec [OF ok, of c h ch]
      by (auto simp: defs intro!: relay_ok_handle split: list.splits)
  qed (use ok cfg rx in \<open>auto simp: defs submit_Ok split: list.splits\<close>)
  then show "relay_inv config t" and "rm_queue s @ submitted_in [e] = taken_in [e] @ rm_queue t"
    and "event_spec (max_advertised_hosts config) e (rm_hosts s) (rm_hosts t)" by blast+
qed

interpretation relay_task_sys: invariant_system "relay_task_init config" relay_task_step "relay_inv config" for config
proof unfold_locales
  show "relay_task_init config s \<Longrightarrow> relay_inv config s" for s :: "'a relay_machine"
    by (simp add: relay_task_init_def relay_inv_def) (simp add: relay_new_def)
qed (rule relay_task_step_ok(1))

lemma events_append [simp]:
  "submitted_in (es @ es') = submitted_in es @ submitted_in es'"
  "taken_in (es @ es') = taken_in es @ taken_in es'"
  by (simp_all add: submitted_in_def taken_in_def)

lemma relay_runs:
  assumes "runs relay_task_step s es t" and "relay_inv config s"
  shows "rm_queue s @ submitted_in es = taken_in es @ rm_queue t
    \<and> history_spec (max_advertised_hosts config) es (rm_hosts s) (rm_hosts t)"
  using assms
proof (induction rule: runs.induct)
  case (runs_nil s)
  then show ?case by (simp add: submitted_in_def taken_in_def)
next
  case (runs_cons s e t es u)
  note step = relay_task_step_ok [OF runs_cons.prems runs_cons.hyps(1)]
  have "rm_queue s @ submitted_in ([e] @ es) = taken_in [e] @ rm_queue t @ submitted_in es"
    unfolding events_append using step(2) by (metis append.assoc)
  also have "\<dots> = taken_in ([e] @ es) @ rm_queue u" using runs_cons.IH [OF step(1)] by (simp only: events_append append.assoc)
  finally show ?case using step(3) runs_cons.IH [OF step(1)] by auto
qed

lemma relay_init_state:
  "relay_task_init config s \<Longrightarrow> rm_queue s = [] \<and> rm_hosts s = Map.empty"
  by (auto simp: relay_task_init_def relay_new_def chan_new_def hm_eval)

text \<open>
  C23: commands take effect once each and in the order of their submission, also when tasks
  submit and register while the owner pumps: the commands submitted on a run are those its
  pumps took followed by those still queued, and the hosts are the result of applying every
  direct registration and every command taken, in the order of the run and nothing else, to
  the empty registry as specified. A submission never fails. The registry holds at most the
  configured number of hosts, and at most one when this number is zero.
\<close>

theorem relay_commands_in_order:
  assumes "relay_task_init config s" and "runs relay_task_step s es t"
  shows "submitted_in es = taken_in es @ rm_queue t
    \<and> history_spec (max_advertised_hosts config) es Map.empty (rm_hosts t)
    \<and> fst (submit c (rm_service t)) = Ok ()
    \<and> hm_len (rs_hosts (rm_service t)) \<le> max 1 (max_advertised_hosts config)"
proof -
  note inv = relay_task_sys.inv_init [OF assms(1)]
  have "relay_inv config t" using relay_task_sys.inv_runs [OF assms(2) inv] .
  then show ?thesis
    using relay_runs [OF assms(2) inv] relay_init_state [OF assms(1)]
    by (auto simp: relay_inv_def relay_ok_def submit_Ok)
qed

section \<open>Every command takes effect\<close>

text \<open>
  Progress is shown on the machine beside a counter of the commands taken: the command at
  position \<open>k\<close> of the submissions is taken when the counter passes \<open>k\<close>.
\<close>

definition counted_step :: "nat \<times> 'addr relay_machine \<Rightarrow> 'addr relay_event \<Rightarrow> nat \<times> 'addr relay_machine \<Rightarrow> bool" where
  "counted_step p e q \<longleftrightarrow> relay_task_step (snd p) e (snd q) \<and> fst q = fst p + length (taken_in [e])"

definition pump_event :: "'addr relay_event \<Rightarrow> bool" where
  "pump_event e \<longleftrightarrow> (case e of RmPumpStart \<Rightarrow> True | RmPumpTurn _ \<Rightarrow> True | _ \<Rightarrow> False)"

definition still_queued :: "nat \<Rightarrow> nat \<times> 'addr relay_machine \<Rightarrow> bool" where
  "still_queued k p \<longleftrightarrow> k < fst p + length (rm_queue (snd p))"

definition taken_past :: "nat \<Rightarrow> nat \<times> 'addr relay_machine \<Rightarrow> bool" where
  "taken_past k p \<longleftrightarrow> k < fst p"

definition commands_left :: "nat \<Rightarrow> nat \<times> 'addr relay_machine \<Rightarrow> nat" where
  "commands_left k p = 2 * (Suc k - fst p) + (if rm_pump (snd p) = None then 1 else 0)"

lemmas counted_defs = still_queued_def taken_past_def commands_left_def counted_step_def

lemma queue_grows:
  "submit c rs = (r, rs') \<Longrightarrow> length (chan_queue (rs_commands rs)) \<le> length (chan_queue (rs_commands rs'))"
  by (auto simp: submit_def chan_send_def split: if_splits)

lemma commands_left_step:
  assumes "still_queued k p" and "\<not> taken_past k p" and "counted_step p e q"
  shows "still_queued k q \<and> commands_left k q \<le> commands_left k p
    \<and> (pump_event e \<longrightarrow> commands_left k q < commands_left k p)"
proof -
  have "relay_task_step (snd p) e (snd q)" and "fst q = fst p + length (taken_in [e])"
    using assms(3) by (simp_all add: counted_step_def)
  then show ?thesis
    using assms(1,2)
    by cases (auto simp: counted_defs pump_event_def taken_in_def chan_try_recv_def
        dest!: queue_grows split: list.splits)
qed

lemma pump_enabled:
  assumes "still_queued k p" and "\<not> taken_past k p"
  shows "\<exists>e q. pump_event e \<and> counted_step p e q"
proof (cases "rm_pump (snd p)")
  case None
  have "pump_event RmPumpStart" by (simp add: pump_event_def)
  with rm_pump_start [OF None] show ?thesis by (auto simp: counted_step_def)
next
  case (Some n)
  obtain c cs where "rm_queue (snd p) = c # cs"
    using assms by (cases "rm_queue (snd p)") (auto simp: counted_defs)
  then have "chan_try_recv (rs_commands (rm_service (snd p)))
      = (Some c, (rs_commands (rm_service (snd p)))\<lparr>chan_queue := cs\<rparr>)"
    by (simp add: chan_try_recv_def)
  from rm_pump_turn [OF Some this] show ?thesis
    by (auto simp: counted_step_def pump_event_def intro!: exI [of _ "RmPumpTurn c"])
qed

interpretation pump_progress:
  leads_to counted_step pump_event "still_queued k" "taken_past k" "commands_left k" for k
  by unfold_locales (use commands_left_step pump_enabled in blast)+

text \<open>The events of a run before a moment, and the run with its counter.\<close>

abbreviation events_before :: "(nat \<Rightarrow> 'addr relay_event) \<Rightarrow> nat \<Rightarrow> 'addr relay_event list" where
  "events_before es i \<equiv> map es [0..<i]"

definition counted :: "(nat \<Rightarrow> 'addr relay_machine) \<Rightarrow> (nat \<Rightarrow> 'addr relay_event) \<Rightarrow> nat \<Rightarrow> nat \<times> 'addr relay_machine" where
  "counted ss es i = (length (taken_in (events_before es i)), ss i)"

lemma run_before: "infinite_run step ss es \<Longrightarrow> runs step (ss 0) (map es [0..<i]) (ss i)"
proof (induction i)
  case (Suc i)
  then show ?case
    using runs_append [OF Suc.IH [OF Suc.prems] runs_cons [where step = step, OF infinite_run_step [OF Suc.prems] runs_nil]]
    by simp
qed simp

lemma counted_run:
  assumes "infinite_run relay_task_step ss es"
  shows "infinite_run counted_step (counted ss es) es"
  using infinite_run_step [OF assms] by (simp add: infinite_run_def counted_step_def counted_def)

lemma counted_fair:
  assumes "weakly_fair relay_task_step pump_event ss es"
  shows "weakly_fair counted_step pump_event (counted ss es) es"
  using assms unfolding weakly_fair_def by (fastforce simp: counted_step_def counted_def)

text \<open>The command submitted at a moment, found by its position, is taken by some later turn.\<close>

lemma position_taken:
  assumes "relay_task_init config (ss 0)" and run: "infinite_run relay_task_step ss es"
    and "weakly_fair relay_task_step pump_event ss es" and c: "es i = RmSubmit c"
  shows "\<exists>j>i. es j = RmPumpTurn c
    \<and> length (taken_in (events_before es j)) = length (submitted_in (events_before es i))"
proof -
  let ?k = "length (submitted_in (events_before es i))"
  have order: "submitted_in (events_before es j) = taken_in (events_before es j) @ rm_queue (ss j)" for j
    using relay_runs [OF run_before [OF run] relay_task_sys.inv_init [OF assms(1)]] relay_init_state [OF assms(1)]
    by simp
  have sub: "submitted_in (events_before es (Suc i)) = submitted_in (events_before es i) @ [c]"
    using c by (simp add: submitted_in_def)
  have "still_queued ?k (counted ss es (Suc i))"
    using arg_cong [OF order [of "Suc i"], of length] sub by (simp add: still_queued_def counted_def)
  from pump_progress.reaches [OF counted_run [OF run] counted_fair [OF assms(3)] this]
  obtain m where m: "Suc i \<le> m" "?k < length (taken_in (events_before es m))"
    by (auto simp: taken_past_def counted_def)
  show ?thesis using m
  proof (induction m rule: dec_induct)
    case base
    then show ?case using arg_cong [OF order [of i], of length] c by (simp add: taken_in_def)
  next
    case (step j)
    let ?t = "taken_in (events_before es j)"
    show ?case
    proof (cases "?k < length ?t")
      case True
      then show ?thesis by (rule step.IH)
    next
      case False
      then obtain d where d: "es j = RmPumpTurn d" and k: "length ?t = ?k"
        using step.prems by (cases "es j") (auto simp: taken_in_def)
      have "rm_queue (ss j) = d # rm_queue (ss (Suc j))"
        using infinite_run_step [OF run, of j] unfolding d
        by (auto elim!: pump_turnE simp: chan_try_recv_def split: list.splits)
      moreover have "prefix (submitted_in (events_before es (Suc i))) (submitted_in (events_before es j))"
      proof -
        have "[0..<j] = [0..<Suc i] @ [Suc i..<j]" using upt_add_eq_append [of 0 "Suc i" "j - Suc i"] step.hyps by simp
        then show ?thesis by (metis events_append(1) map_append prefixI)
      qed
      ultimately obtain zs where
        "taken_in (events_before es j) @ d # rm_queue (ss (Suc j)) = submitted_in (events_before es i) @ c # zs"
        unfolding sub using order [of j] by (auto simp: prefix_def)
      then have "d = c" using k by (simp add: append_eq_append_conv)
      then show ?thesis using d k step.hyps by (intro exI [of _ j]) simp
    qed
  qed
qed

text \<open>
  C24: every submitted command takes effect: on every infinite run on which the owner task
  pumps fairly, a later turn of a pump takes exactly the command submitted at a given moment
  (as many were taken before it as were submitted before it), this turn changes the hosts as
  the command specifies, and after the command registered a server the server is found under
  its sender id; however many more commands and registrations come meanwhile.
\<close>

theorem submitted_commands_handled:
  assumes "relay_task_init config (ss 0)" and "infinite_run relay_task_step ss es"
    and "weakly_fair relay_task_step pump_event ss es" and "es i = RmSubmit c"
  shows "\<exists>j>i. es j = RmPumpTurn c
    \<and> length (taken_in (events_before es j)) = length (submitted_in (events_before es i))
    \<and> command_spec (max_advertised_hosts config) c (rm_hosts (ss j)) (rm_hosts (ss (Suc j)))
    \<and> (\<forall>server. c = CmdRegisterHost server \<longrightarrow>
        host_by_sender (rm_service (ss (Suc j))) (sender_id server) = Some server)"
proof -
  obtain j where j: "j > i" "es j = RmPumpTurn c"
    "length (taken_in (events_before es j)) = length (submitted_in (events_before es i))"
    using position_taken [OF assms] by blast
  have "relay_inv config (ss j)"
    using relay_task_sys.inv_reachable [OF infinite_run_reachable [of "relay_task_init config", OF assms(1,2)]] .
  from relay_task_step_ok(3) [OF this infinite_run_step [OF assms(2)]] j(2)
  have effect: "command_spec (max_advertised_hosts config) c (rm_hosts (ss j)) (rm_hosts (ss (Suc j)))"
    by simp
  then have "\<forall>server. c = CmdRegisterHost server \<longrightarrow>
      host_by_sender (rm_service (ss (Suc j))) (sender_id server) = Some server"
    by (auto simp: register_spec_def host_by_sender_def split: if_splits)
  with j effect show ?thesis by blast
qed

text \<open>A task that submits a registration again and again, and an owner that pumps it.\<close>

definition registration :: "nat relay_command" where
  "registration = CmdRegisterHost (example_server 7)"

definition pumping :: "nat \<Rightarrow> nat relay_machine" where
  "pumping i = (let m = i mod 4 in
     \<lparr>rm_service = \<lparr>rs_config = default_relay_config,
        rs_hosts = (if i < 3 then hm_new else hm_insert 7 (example_server 7) hm_new),
        rs_commands = \<lparr>chan_queue = (if m = 1 \<or> m = 2 then [registration] else []), chan_rx_open = True\<rparr>\<rparr>,
      rm_pump = (if m = 2 then Some 0 else if m = 3 then Some 1 else None)\<rparr>)"

definition pumping_event :: "nat \<Rightarrow> nat relay_event" where
  "pumping_event i = [RmSubmit registration, RmPumpStart, RmPumpTurn registration, RmPumpEnd 1] ! (i mod 4)"

lemma pumping_turn:
  "handle_command (\<lambda>_. 0) registration (rm_service (pumping i)) =
    (rm_service (pumping i))\<lparr>rs_hosts := hm_insert 7 (example_server 7) hm_new\<rparr>"
  by (simp add: registration_def pumping_def Let_def register_host_def example_server_def hm_eval
      default_relay_config_def)

lemma pumping_run: "infinite_run relay_task_step pumping pumping_event"
  unfolding infinite_run_def
proof
  fix i
  let ?s = "pumping i"
  note defs = pumping_def pumping_event_def Let_def chan_try_recv_def
  consider "i mod 4 = 0" | "i mod 4 = 1" | "i mod 4 = 2" | "i mod 4 = 3" by linarith
  then show "relay_task_step ?s (pumping_event i) (pumping (Suc i))"
  proof cases
    case 1
    then have "Suc i mod 4 = 1" "Suc i < 3 \<longleftrightarrow> i < 3" by presburger+
    with 1 show ?thesis
      using rm_submit [of registration ?s] by (simp add: defs submit_Ok)
  next
    case 2
    then have "Suc i mod 4 = 2" "Suc i < 3 \<longleftrightarrow> i < 3" by presburger+
    with 2 show ?thesis using rm_pump_start [of ?s] by (simp add: defs)
  next
    case 3
    then have "Suc i mod 4 = 3" "\<not> Suc i < 3" by presburger+
    with 3 show ?thesis
      using rm_pump_turn [of ?s 0 registration "\<lparr>chan_queue = [], chan_rx_open = True\<rparr>" "\<lambda>_. 0"]
        pumping_turn [of i]
      by (simp add: handle_command_commands) (simp add: defs)
  next
    case 4
    then have "Suc i mod 4 = 0" "\<not> Suc i < 3" "\<not> i < 3" by presburger+
    with 4 show ?thesis
      using rm_pump_end [of ?s 1 "\<lparr>chan_queue = [], chan_rx_open = True\<rparr>"] by (simp add: defs)
  qed
qed

lemma pumping_init: "relay_task_init default_relay_config (pumping 0)"
  by (simp add: relay_task_init_def pumping_def relay_new_def chan_new_def)

lemma pumping_fair: "weakly_fair relay_task_step pump_event pumping pumping_event"
  unfolding weakly_fair_def
proof (intro allI impI)
  fix i :: nat
  have "(4 * i + 1) mod 4 = 1" by presburger
  then show "\<exists>j\<ge>i. pump_event (pumping_event j)"
    by (intro exI [of _ "4 * i + 1"]) (simp add: pumping_event_def pump_event_def)
qed

lemma pumping_hosts: "rm_hosts (pumping 6) = [7 \<mapsto> example_server 7]"
  by (rule ext) (simp add: pumping_def hm_eval)

theorem relay_commands_in_order_witness:
  "submitted_in (events_before pumping_event 6) = taken_in (events_before pumping_event 6) @ [registration]
    \<and> history_spec 64 (events_before pumping_event 6) Map.empty [7 \<mapsto> example_server 7]
    \<and> fst (submit CmdListHosts (rm_service (pumping 6))) = Ok ()"
  using relay_commands_in_order [OF pumping_init run_before [OF pumping_run], of 6 CmdListHosts]
  unfolding pumping_hosts by (simp add: pumping_def default_relay_config_def)

theorem submitted_commands_handled_witness:
  "\<exists>j>4. pumping_event j = RmPumpTurn registration
    \<and> length (taken_in (events_before pumping_event j)) = length (submitted_in (events_before pumping_event 4))
    \<and> command_spec 64 registration (rm_hosts (pumping j)) (rm_hosts (pumping (Suc j)))
    \<and> host_by_sender (rm_service (pumping (Suc j))) 7 = Some (example_server 7)"
  using submitted_commands_handled [OF pumping_init pumping_run pumping_fair, of 4 registration]
  by (auto simp: pumping_event_def registration_def example_server_def default_relay_config_def)

end
