(* ===== verification/Session.thy ===== *)
theory Session
  imports Core_Types Rust_HashMap
begin

text \<open>
  The session registry (\<open>crates/core/src/session.rs\<close>): live NetherNet sessions by network
  and connection id. Sessions and addresses belong to the NetherNet crate and are type
  parameters; the two address getters are arguments of \<open>snapshot\<close>.
\<close>

record 'addr session_summary =
  ss_network_id :: rstr
  ss_connection_id :: u64
  ss_local_addr :: 'addr
  ss_remote_addr :: 'addr

record 's session_registry =
  sr_sessions :: "(rstr \<times> u64, 's) hashmap"

definition session_registry_default :: "'s session_registry" where
  "session_registry_default = \<lparr>sr_sessions = hm_new\<rparr>"

definition session_upsert :: "rstr \<Rightarrow> u64 \<Rightarrow> 's \<Rightarrow> 's session_registry \<Rightarrow> 's session_registry" where
  "session_upsert nid cid s reg = reg\<lparr>sr_sessions := hm_insert (nid, cid) s (sr_sessions reg)\<rparr>"

definition session_remove :: "rstr \<Rightarrow> u64 \<Rightarrow> 's session_registry \<Rightarrow> 's session_registry" where
  "session_remove nid cid reg = reg\<lparr>sr_sessions := hm_remove (nid, cid) (sr_sessions reg)\<rparr>"

definition session_get :: "'s session_registry \<Rightarrow> rstr \<Rightarrow> u64 \<Rightarrow> 's option" where
  "session_get reg nid cid = hm_get (sr_sessions reg) (nid, cid)"

definition session_len :: "'s session_registry \<Rightarrow> usize" where
  "session_len reg = hm_len (sr_sessions reg)"

fun snapshot_loop ::
  "('s \<Rightarrow> 'addr) \<Rightarrow> ('s \<Rightarrow> 'addr) \<Rightarrow> ((rstr \<times> u64) \<times> 's) list \<Rightarrow> 'addr session_summary list
     \<Rightarrow> 'addr session_summary list" where
  "snapshot_loop local remote [] out = out"
| "snapshot_loop local remote (((nid, cid), s) # entries) out =
     snapshot_loop local remote entries
       (out @ [\<lparr>ss_network_id = nid, ss_connection_id = cid,
                ss_local_addr = local s, ss_remote_addr = remote s\<rparr>])"

definition snapshot ::
  "(rstr \<times> u64) hasher \<Rightarrow> ('s \<Rightarrow> 'addr) \<Rightarrow> ('s \<Rightarrow> 'addr) \<Rightarrow> 's session_registry
     \<Rightarrow> 'addr session_summary list" where
  "snapshot h local remote reg = snapshot_loop local remote (hm_iter h (sr_sessions reg)) []"

section \<open>Behaviour of operation sequences\<close>

datatype 's session_op = OpUpsert rstr u64 's | OpRemove rstr u64

fun session_apply :: "'s session_op \<Rightarrow> 's session_registry \<Rightarrow> 's session_registry" where
  "session_apply (OpUpsert nid cid s) reg = session_upsert nid cid s reg"
| "session_apply (OpRemove nid cid) reg = session_remove nid cid reg"

text \<open>The same operations on an abstract partial map.\<close>

fun abs_apply :: "'s session_op \<Rightarrow> (rstr \<times> u64 \<rightharpoonup> 's) \<Rightarrow> (rstr \<times> u64 \<rightharpoonup> 's)" where
  "abs_apply (OpUpsert nid cid s) A = A((nid, cid) \<mapsto> s)"
| "abs_apply (OpRemove nid cid) A = A((nid, cid) := None)"

lemma hm_ok_session_apply [intro]:
  "hm_ok (sr_sessions reg) \<Longrightarrow> hm_ok (sr_sessions (session_apply p reg))"
  by (cases p) (simp_all add: session_upsert_def session_remove_def)

lemma abs_session_apply:
  "hm_get (sr_sessions (session_apply p reg)) = abs_apply p (hm_get (sr_sessions reg))"
  by (cases p) (auto simp: session_upsert_def session_remove_def)

lemma abs_session_run:
  "hm_get (sr_sessions (fold session_apply ops reg)) = fold abs_apply ops (hm_get (sr_sessions reg))"
  by (induction ops arbitrary: reg) (simp_all add: abs_session_apply)

lemma hm_ok_session_run:
  "hm_ok (sr_sessions reg) \<Longrightarrow> hm_ok (sr_sessions (fold session_apply ops reg))"
  by (induction ops arbitrary: reg) (simp_all add: hm_ok_session_apply)

lemma snapshot_loop_map:
  "snapshot_loop local remote entries out =
     out @ map (\<lambda>((nid, cid), s). \<lparr>ss_network_id = nid, ss_connection_id = cid,
                ss_local_addr = local s, ss_remote_addr = remote s\<rparr>) entries"
  by (induction local remote entries out rule: snapshot_loop.induct) simp_all

section \<open>Properties\<close>

text \<open>
  C33: for every sequence of insertions and removals starting from the empty registry,
  lookups agree with a partial map on which the same operations were done, and the
  reported number of sessions is the number of keys of that map.
\<close>

theorem session_registry_refines:
  "session_get (fold session_apply ops session_registry_default) nid cid
     = fold abs_apply ops Map.empty (nid, cid)
   \<and> session_len (fold session_apply ops session_registry_default)
     = card (dom (fold abs_apply ops Map.empty))"
proof -
  let ?reg = "fold session_apply ops session_registry_default"
  have e: "hm_get (sr_sessions session_registry_default) = Map.empty"
    by (rule ext) (simp add: session_registry_default_def)
  have "hm_ok (sr_sessions ?reg)"
    by (rule hm_ok_session_run) (simp add: session_registry_default_def)
  then show ?thesis
    using abs_session_run [of ops session_registry_default]
    by (simp add: session_get_def session_len_def hm_len_card e)
qed

text \<open>
  A snapshot describes every tracked session exactly once, with the addresses the
  session reports, whatever the iteration order of the map.
\<close>

lemma snapshot_exact:
  assumes "hm_ok (sr_sessions reg)"
  shows "distinct (map (\<lambda>x. (ss_network_id x, ss_connection_id x)) (snapshot h local remote reg))
    \<and> (\<forall>x. x \<in> set (snapshot h local remote reg) \<longleftrightarrow>
        (\<exists>s. session_get reg (ss_network_id x) (ss_connection_id x) = Some s
          \<and> x = \<lparr>ss_network_id = ss_network_id x, ss_connection_id = ss_connection_id x,
                 ss_local_addr = local s, ss_remote_addr = remote s\<rparr>))"
proof
  have "map (\<lambda>x. (ss_network_id x, ss_connection_id x)) (snapshot h local remote reg) =
      map fst (hm_iter h (sr_sessions reg))"
    by (auto simp: snapshot_def snapshot_loop_map)
  then show "distinct (map (\<lambda>x. (ss_network_id x, ss_connection_id x)) (snapshot h local remote reg))"
    using hm_iter_distinct [OF assms] by simp
next
  show "\<forall>x. x \<in> set (snapshot h local remote reg) \<longleftrightarrow>
        (\<exists>s. session_get reg (ss_network_id x) (ss_connection_id x) = Some s
          \<and> x = \<lparr>ss_network_id = ss_network_id x, ss_connection_id = ss_connection_id x,
                 ss_local_addr = local s, ss_remote_addr = remote s\<rparr>)"
    unfolding session_get_def hm_in_iter [OF assms, of _ _ h, symmetric] snapshot_def snapshot_loop_map
    by force
qed

end
