(* ===== verification/Transport.thy ===== *)
theory Transport
  imports Core_Types
begin

text \<open>
  The transport facade (\<open>crates/core/src/transport.rs\<close>). The NetherNet crate provides the
  LAN signaling stack, the listener, the stream and the address type: their types are
  parameters and the calls mineshaft makes into them are arguments. What the facade itself
  decides is which inner object is used, how errors are wrapped, and which part of an
  address it uses.
\<close>

record 'lan shared_signaling =
  inner_lan :: 'lan

definition shared_signaling_new :: "'lan \<Rightarrow> 'lan shared_signaling" where
  "shared_signaling_new lan = \<lparr>inner_lan = lan\<rparr>"

definition shared_inner :: "'lan shared_signaling \<Rightarrow> 'lan" where
  "shared_inner s = inner_lan s"

text \<open>The calls of the \<open>Signaling\<close> trait on the stack.\<close>

record ('lan, 'signal, 'stream, 'creds) signaling_calls =
  sc_signal :: "'lan \<Rightarrow> 'signal \<Rightarrow> (unit, nethernet_error) result"
  sc_signals :: "'lan \<Rightarrow> 'stream"
  sc_network_id :: "'lan \<Rightarrow> rstr"
  sc_disable_trickle_ice :: "'lan \<Rightarrow> bool"
  sc_credentials :: "'lan \<Rightarrow> ('creds option, nethernet_error) result"
  sc_set_pong_data :: "'lan \<Rightarrow> u8 list \<Rightarrow> 'lan"

text \<open>The implementation of the trait by the wrapper: every call goes to the inner stack.\<close>

definition shared_calls ::
  "('lan, 'signal, 'stream, 'creds) signaling_calls
     \<Rightarrow> ('lan shared_signaling, 'signal, 'stream, 'creds) signaling_calls" where
  "shared_calls c =
     \<lparr>sc_signal = (\<lambda>s x. sc_signal c (inner_lan s) x),
      sc_signals = (\<lambda>s. sc_signals c (inner_lan s)),
      sc_network_id = (\<lambda>s. sc_network_id c (inner_lan s)),
      sc_disable_trickle_ice = (\<lambda>s. sc_disable_trickle_ice c (inner_lan s)),
      sc_credentials = (\<lambda>s. sc_credentials c (inner_lan s)),
      sc_set_pong_data = (\<lambda>s d. s\<lparr>inner_lan := sc_set_pong_data c (inner_lan s) d\<rparr>)\<rparr>"

record 'l listener =
  li_inner :: 'l

definition listener_accept ::
  "('l \<Rightarrow> ('session, nethernet_error) result \<times> 'l) \<Rightarrow> 'l listener
     \<Rightarrow> ('session, core_error) result \<times> 'l listener" where
  "listener_accept accept li =
     (let (r, l) = accept (li_inner li) in (map_err Nethernet r, li\<lparr>li_inner := l\<rparr>))"

definition listener_local_addr :: "('l \<Rightarrow> 'addr) \<Rightarrow> 'l listener \<Rightarrow> 'addr" where
  "listener_local_addr local_addr li = local_addr (li_inner li)"

record 'lan transport =
  tr_signaling :: "'lan shared_signaling"

definition transport_new :: "'lan \<Rightarrow> 'lan transport" where
  "transport_new lan = \<lparr>tr_signaling = shared_signaling_new lan\<rparr>"

definition transport_signaling :: "'lan transport \<Rightarrow> 'lan shared_signaling" where
  "transport_signaling t = tr_signaling t"

definition transport_listen ::
  "('lan shared_signaling \<Rightarrow> ('l, nethernet_error) result) \<Rightarrow> 'lan transport
     \<Rightarrow> ('l listener, core_error) result" where
  "transport_listen bind t =
     (case bind (tr_signaling t) of
        Inl e \<Rightarrow> Err (Nethernet e)
      | Inr l \<Rightarrow> Ok \<lparr>li_inner = l\<rparr>)"

definition transport_connect ::
  "('lan shared_signaling \<Rightarrow> rstr \<Rightarrow> ('stream, nethernet_error) result) \<Rightarrow> 'lan transport
     \<Rightarrow> rstr \<Rightarrow> ('stream, core_error) result" where
  "transport_connect connect t network_id = map_err Nethernet (connect (tr_signaling t) network_id)"

definition transport_connect_addr ::
  "('lan shared_signaling \<Rightarrow> rstr \<Rightarrow> ('stream, nethernet_error) result) \<Rightarrow> ('addr \<Rightarrow> rstr)
     \<Rightarrow> 'lan transport \<Rightarrow> 'addr \<Rightarrow> ('stream, core_error) result" where
  "transport_connect_addr connect addr_network_id t remote =
     transport_connect connect t (addr_network_id remote)"

section \<open>Properties\<close>

lemma map_err_eq_Err: "map_err f r = Err e \<longleftrightarrow> (\<exists>x. r = Err x \<and> e = f x)"
  by (cases r) auto

lemma map_err_eq_Ok: "map_err f r = Ok a \<longleftrightarrow> r = Ok a"
  by (cases r) auto

text \<open>
  Connecting to an explicit address uses the network id only: two addresses that
  differ in the connection id open the same connection, through the stack the transport
  was created with, and a failure is the NetherNet error itself.
\<close>

lemma connect_addr_ignores_connection_id:
  assumes "addr_network_id a = addr_network_id b"
  shows "transport_connect_addr connect addr_network_id (transport_new lan) a
      = transport_connect_addr connect addr_network_id (transport_new lan) b
    \<and> (\<forall>s. transport_connect_addr connect addr_network_id (transport_new lan) a = Ok s \<longleftrightarrow>
        connect (shared_signaling_new lan) (addr_network_id a) = Ok s)
    \<and> (\<forall>e. transport_connect_addr connect addr_network_id (transport_new lan) a = Err e \<longleftrightarrow>
        (\<exists>n. connect (shared_signaling_new lan) (addr_network_id a) = Err n \<and> e = Nethernet n))"
  using assms
  by (simp add: transport_connect_addr_def transport_connect_def transport_new_def
      map_err_eq_Err map_err_eq_Ok)

text \<open>
  The contract of a wrapper of the signaling stack: every call of the wrapper answers what
  the wrapped stack answers, and changes of the wrapper are changes of the wrapped stack.
\<close>

locale signaling_wrapper =
  fixes outer :: "('w, 'signal, 'stream, 'creds) signaling_calls"
    and inner :: "('lan, 'signal, 'stream, 'creds) signaling_calls"
    and unwrap :: "'w \<Rightarrow> 'lan"
  assumes wrap_signal: "sc_signal outer s x = sc_signal inner (unwrap s) x"
    and wrap_signals: "sc_signals outer s = sc_signals inner (unwrap s)"
    and wrap_network_id: "sc_network_id outer s = sc_network_id inner (unwrap s)"
    and wrap_disable_trickle_ice: "sc_disable_trickle_ice outer s = sc_disable_trickle_ice inner (unwrap s)"
    and wrap_credentials: "sc_credentials outer s = sc_credentials inner (unwrap s)"
    and wrap_set_pong_data: "unwrap (sc_set_pong_data outer s d) = sc_set_pong_data inner (unwrap s) d"
begin

lemma unwrap_pongs:
  "unwrap (fold (\<lambda>d s. sc_set_pong_data outer s d) ds s) = fold (\<lambda>d l. sc_set_pong_data inner l d) ds (unwrap s)"
  by (induction ds arbitrary: s) (simp_all add: wrap_set_pong_data)

text \<open>A user of the trait cannot tell the wrapper from the stack, whatever pong data was set.\<close>

lemma indistinguishable:
  fixes s ds
  defines "t \<equiv> fold (\<lambda>d s. sc_set_pong_data outer s d) ds s"
    and "l \<equiv> fold (\<lambda>d l. sc_set_pong_data inner l d) ds (unwrap s)"
  shows "sc_signal outer t x = sc_signal inner l x" "sc_signals outer t = sc_signals inner l"
    "sc_network_id outer t = sc_network_id inner l" "sc_disable_trickle_ice outer t = sc_disable_trickle_ice inner l"
    "sc_credentials outer t = sc_credentials inner l"
  by (simp_all add: t_def l_def unwrap_pongs wrap_signal wrap_signals wrap_network_id wrap_disable_trickle_ice
      wrap_credentials)

end

interpretation shared: signaling_wrapper "shared_calls calls" calls shared_inner for calls
  by unfold_locales (simp_all add: shared_calls_def shared_inner_def)

text \<open>The signaling handle of a transport behaves like the stack the transport was made from.\<close>

lemma transport_signaling_behaves:
  "sc_signal (shared_calls calls) (transport_signaling (transport_new lan)) x = sc_signal calls lan x
    \<and> sc_network_id (shared_calls calls) (transport_signaling (transport_new lan)) = sc_network_id calls lan"
  by (simp add: shared.wrap_signal shared.wrap_network_id)
    (simp add: shared_inner_def transport_signaling_def transport_new_def shared_signaling_new_def)

text \<open>
  A listener is bound to the stack of the transport, accepts exactly the sessions the
  NetherNet listener accepts, and every failure is the NetherNet error, wrapped once.
\<close>

lemma transport_listens:
  assumes "transport_listen bind (transport_new lan) = Ok li" and "listener_accept accept li = (r, li')"
  shows "bind (shared_signaling_new lan) = Ok (li_inner li)
    \<and> r = map_err Nethernet (fst (accept (li_inner li))) \<and> li_inner li' = snd (accept (li_inner li))
    \<and> listener_local_addr local_addr li = local_addr (li_inner li)"
  using assms
  by (auto simp: transport_listen_def transport_new_def listener_accept_def listener_local_addr_def Let_def
      split_beta split: sum.splits)

end
