(* ===== verification/Discovery.thy ===== *)
theory Discovery
  imports Core_Types Rust_HashMap
begin

text \<open>
  The discovery service (\<open>crates/core/src/discovery.rs\<close>): the advertised servers with
  their pre-built response packets, the operations that change the set, the heartbeat that
  sends every packet to every local target, and the life of the heartbeat task.
  Building a packet calls the NetherNet crate: the record \<open>nethernet_codec\<close> holds the three
  calls and is an argument.
\<close>

section \<open>Packets\<close>

record server_data =
  sd_server_name :: rstr
  sd_level_name :: rstr
  sd_game_type :: u8
  sd_player_count :: i32
  sd_max_player_count :: i32
  sd_editor_world :: bool
  sd_hardcore :: bool
  sd_flag_a :: bool
  sd_flag_b :: bool
  sd_session_id :: rstr
  sd_transport_layer :: u8
  sd_connection_type :: u8

record 'packet nethernet_codec =
  nc_marshal_data :: "server_data \<Rightarrow> (u8 list, nethernet_error) result"
  nc_response_new :: "u8 list \<Rightarrow> 'packet"
  nc_marshal :: "'packet \<Rightarrow> u64 \<Rightarrow> (u8 list, nethernet_error) result"

definition server_data_of :: "server_advertisement \<Rightarrow> server_data" where
  "server_data_of ad =
     \<lparr>sd_server_name = server_name ad, sd_level_name = level_name ad,
      sd_game_type = game_type ad, sd_player_count = player_count ad,
      sd_max_player_count = max_player_count ad, sd_editor_world = editor_world ad,
      sd_hardcore = hardcore ad, sd_flag_a = flag_a ad, sd_flag_b = flag_b ad,
      sd_session_id = session_id ad, sd_transport_layer = transport_layer ad,
      sd_connection_type = connection_type ad\<rparr>"

definition build_response_packet ::
  "'p nethernet_codec \<Rightarrow> u64 \<Rightarrow> server_advertisement \<Rightarrow> (u8 list, core_error) result" where
  "build_response_packet nc sid ad =
     (case nc_marshal_data nc (server_data_of ad) of
        Inl e \<Rightarrow> Err (Nethernet e)
      | Inr bytes \<Rightarrow> map_err Nethernet (nc_marshal nc (nc_response_new nc bytes) sid))"

section \<open>The advertised set\<close>

record cached_advertisement =
  ca_data :: server_advertisement
  ca_packet :: "u8 list"

type_synonym advertised_map = "(u64, cached_advertisement) hashmap"

definition advertise :: "'p nethernet_codec \<Rightarrow> u64 \<Rightarrow> server_advertisement \<Rightarrow> advertised_map \<Rightarrow> advertised_map" where
  "advertise nc sid ad m =
     (case build_response_packet nc sid ad of
        Inr packet \<Rightarrow> hm_insert sid \<lparr>ca_data = ad, ca_packet = packet\<rparr> m
      | Inl e \<Rightarrow> m)"

definition update_host :: "'p nethernet_codec \<Rightarrow> u64 \<Rightarrow> server_advertisement \<Rightarrow> advertised_map \<Rightarrow> advertised_map" where
  "update_host nc sid ad m = advertise nc sid ad m"

definition unadvertise :: "u64 \<Rightarrow> advertised_map \<Rightarrow> advertised_map" where
  "unadvertise sid m = hm_remove sid m"

fun replace_loop :: "'p nethernet_codec \<Rightarrow> advertised_server list \<Rightarrow> advertised_map \<Rightarrow> advertised_map" where
  "replace_loop nc [] guard = guard"
| "replace_loop nc (entry # entries) guard =
     (if (case hm_get guard (sender_id entry) of
            Some existing \<Rightarrow> ca_data existing = ad_data entry | None \<Rightarrow> False)
      then replace_loop nc entries guard
      else case build_response_packet nc (sender_id entry) (ad_data entry) of
             Inr packet \<Rightarrow>
               replace_loop nc entries
                 (hm_insert (sender_id entry) \<lparr>ca_data = ad_data entry, ca_packet = packet\<rparr> guard)
           | Inl e \<Rightarrow> replace_loop nc entries guard)"

definition replace_all :: "'p nethernet_codec \<Rightarrow> advertised_server list \<Rightarrow> advertised_map \<Rightarrow> advertised_map" where
  "replace_all nc entries m =
     replace_loop nc entries
       (hm_retain (\<lambda>sid _. list_ex (\<lambda>e. sender_id e = sid) entries) m)"

definition advertised :: "u64 hasher \<Rightarrow> advertised_map \<Rightarrow> advertised_server list" where
  "advertised h m = map (\<lambda>(sid, c). \<lparr>sender_id = sid, ad_data = ca_data c\<rparr>) (hm_iter h m)"

text \<open>One heartbeat: the datagrams handed to the socket, in order. A failed send is logged
  and the loop goes on, so every datagram is attempted whatever the socket answers.\<close>

fun broadcast_loop :: "u8 list list \<Rightarrow> socket_addr list \<Rightarrow> (u8 list \<times> socket_addr) list" where
  "broadcast_loop [] targets = []"
| "broadcast_loop (packet # packets) targets =
     map (\<lambda>target. (packet, target)) targets @ broadcast_loop packets targets"

definition broadcast_once :: "u64 hasher \<Rightarrow> socket_addr list \<Rightarrow> advertised_map \<Rightarrow> (u8 list \<times> socket_addr) list" where
  "broadcast_once h targets m = broadcast_loop (map ca_packet (hm_values h m)) targets"

section \<open>Cache coherence\<close>

text \<open>Every cached packet is the packet that building it again would give.\<close>

definition coherent :: "'p nethernet_codec \<Rightarrow> advertised_map \<Rightarrow> bool" where
  "coherent nc m \<longleftrightarrow> hm_ok m \<and>
     (\<forall>sid c. hm_get m sid = Some c \<longrightarrow> build_response_packet nc sid (ca_data c) = Ok (ca_packet c))"

lemma coherentD:
  "coherent nc m \<Longrightarrow> hm_ok m"
  "coherent nc m \<Longrightarrow> hm_get m sid = Some c \<Longrightarrow> build_response_packet nc sid (ca_data c) = Ok (ca_packet c)"
  by (auto simp: coherent_def)

lemma coherent_new [simp, intro]: "coherent nc hm_new"
  by (simp add: coherent_def)

lemma coherent_insert [intro]:
  "coherent nc m \<Longrightarrow> build_response_packet nc sid ad = Ok packet \<Longrightarrow>
    coherent nc (hm_insert sid \<lparr>ca_data = ad, ca_packet = packet\<rparr> m)"
  by (auto simp: coherent_def split: if_splits)

lemma coherent_advertise [intro]: "coherent nc m \<Longrightarrow> coherent nc (advertise nc sid ad m)"
  by (auto simp: advertise_def split: sum.splits)

lemma coherent_unadvertise [intro]: "coherent nc m \<Longrightarrow> coherent nc (unadvertise sid m)"
  by (auto simp: coherent_def unadvertise_def split: if_splits)

lemma coherent_retain [intro]: "coherent nc m \<Longrightarrow> coherent nc (hm_retain P m)"
  by (auto simp: coherent_def hm_get_retain_Some)

lemma coherent_replace_loop [intro]: "coherent nc m \<Longrightarrow> coherent nc (replace_loop nc entries m)"
  by (induction nc entries m rule: replace_loop.induct) (auto split: sum.splits if_splits)

lemma coherent_replace_all [intro]: "coherent nc m \<Longrightarrow> coherent nc (replace_all nc entries m)"
  by (auto simp: replace_all_def)

text \<open>The operations of the service as one step each.\<close>

datatype discovery_op =
  Advertise u64 server_advertisement
| UpdateHostOp u64 server_advertisement
| Unadvertise u64
| ReplaceAll "advertised_server list"

fun discovery_apply :: "'p nethernet_codec \<Rightarrow> discovery_op \<Rightarrow> advertised_map \<Rightarrow> advertised_map" where
  "discovery_apply nc (Advertise sid ad) m = advertise nc sid ad m"
| "discovery_apply nc (UpdateHostOp sid ad) m = update_host nc sid ad m"
| "discovery_apply nc (Unadvertise sid) m = unadvertise sid m"
| "discovery_apply nc (ReplaceAll entries) m = replace_all nc entries m"

interpretation discovery_sys: invariant_system "\<lambda>m. m = hm_new"
  "\<lambda>m p m'. m' = discovery_apply nc p m" "coherent nc"
  for nc
proof unfold_locales
  fix m p m' assume "coherent nc m" "m' = discovery_apply nc p m"
  then show "coherent nc m'" by (cases p) (auto simp: update_host_def)
qed simp

section \<open>Replacing the set\<close>

text \<open>
  The reference: rebuild everything. The entry of an id is the last one of the list that
  has this id, with a fresh packet.
\<close>

definition rebuilt :: "'p nethernet_codec \<Rightarrow> advertised_server list \<Rightarrow> u64 \<Rightarrow> cached_advertisement option" where
  "rebuilt nc entries sid =
     (let es = filter (\<lambda>e. sender_id e = sid) entries
      in if es = [] then None
         else case build_response_packet nc sid (ad_data (last es)) of
                Inl _ \<Rightarrow> None
              | Inr packet \<Rightarrow> Some \<lparr>ca_data = ad_data (last es), ca_packet = packet\<rparr>)"

definition buildable :: "'p nethernet_codec \<Rightarrow> advertised_server list \<Rightarrow> bool" where
  "buildable nc entries \<longleftrightarrow>
     list_all (\<lambda>e. is_ok (build_response_packet nc (sender_id e) (ad_data e))) entries"

lemma replace_loop_other:
  "sid \<notin> sender_id ` set entries \<Longrightarrow> hm_get (replace_loop nc entries m) sid = hm_get m sid"
  by (induction nc entries m rule: replace_loop.induct) (auto split: sum.splits)

lemma replace_loop_step:
  assumes "coherent nc m" and "build_response_packet nc (sender_id e) (ad_data e) = Ok packet"
  shows "hm_get (replace_loop nc [e] m) (sender_id e) = Some \<lparr>ca_data = ad_data e, ca_packet = packet\<rparr>"
proof (cases "hm_get m (sender_id e)")
  case None
  then show ?thesis using assms(2) by simp
next
  case (Some c)
  show ?thesis
  proof (cases "ca_data c = ad_data e")
    case True
    then have "ca_packet c = packet" using coherentD(2) [OF assms(1) Some] assms(2) by simp
    then show ?thesis using Some True by (cases c) simp
  next
    case False
    then show ?thesis using Some assms(2) by simp
  qed
qed

lemma replace_loop_append:
  "replace_loop nc (xs @ ys) m = replace_loop nc ys (replace_loop nc xs m)"
  by (induction nc xs m rule: replace_loop.induct) (auto split: sum.splits)

lemma replace_loop_rebuilt:
  assumes "coherent nc m" and "buildable nc entries" and "sid \<in> sender_id ` set entries"
  shows "hm_get (replace_loop nc entries m) sid = rebuilt nc entries sid"
  using assms(2,3)
proof (induction entries rule: rev_induct)
  case Nil
  then show ?case by simp
next
  case (snoc e es)
  obtain packet where p: "build_response_packet nc (sender_id e) (ad_data e) = Ok packet"
    using snoc.prems(1) by (auto simp: buildable_def is_ok_iff)
  have coh: "coherent nc (replace_loop nc es m)" using assms(1) by blast
  show ?case
  proof (cases "sender_id e = sid")
    case True
    then show ?thesis
      using replace_loop_step [OF coh p] p
      by (simp add: replace_loop_append rebuilt_def del: replace_loop.simps)
  next
    case False
    then have "sid \<in> sender_id ` set es" and "buildable nc es"
      using snoc.prems by (auto simp: buildable_def)
    with snoc.IH have "hm_get (replace_loop nc es m) sid = rebuilt nc es sid" by simp
    then show ?thesis
      using False replace_loop_other [of sid "[e]" nc "replace_loop nc es m"]
      by (simp add: replace_loop_append rebuilt_def del: replace_loop.simps)
  qed
qed

lemma rebuilt_distinct:
  assumes "distinct (map sender_id entries)" and "e \<in> set entries"
  shows "rebuilt nc entries (sender_id e) =
    (case build_response_packet nc (sender_id e) (ad_data e) of
       Inl _ \<Rightarrow> None | Inr packet \<Rightarrow> Some \<lparr>ca_data = ad_data e, ca_packet = packet\<rparr>)"
proof -
  have "filter (\<lambda>x. sender_id x = sender_id e) entries = [e]"
    using assms by (induction entries) (auto simp: filter_empty_conv rev_image_eqI)
  then show ?thesis by (simp add: rebuilt_def split: sum.split)
qed

lemma rebuilt_notin: "sid \<notin> sender_id ` set entries \<Longrightarrow> rebuilt nc entries sid = None"
  by (auto simp: rebuilt_def Let_def filter_empty_conv)

lemma list_ex_sender: "list_ex (\<lambda>e. sender_id e = sid) entries \<longleftrightarrow> sid \<in> sender_id ` set entries"
  by (auto simp: list_ex_iff)

lemma replace_all_notin:
  "hm_ok m \<Longrightarrow> sid \<notin> sender_id ` set entries \<Longrightarrow> hm_get (replace_all nc entries m) sid = None"
  by (simp add: replace_all_def replace_loop_other hm_get_retain list_ex_sender split: option.splits)

lemma replace_all_rebuilt:
  assumes "coherent nc m" and "buildable nc entries"
  shows "hm_get (replace_all nc entries m) sid = rebuilt nc entries sid"
proof (cases "sid \<in> sender_id ` set entries")
  case True
  then show ?thesis
    unfolding replace_all_def using assms by (intro replace_loop_rebuilt coherent_retain)
next
  case False
  then show ?thesis
    using coherentD(1) [OF assms(1)] by (simp add: replace_all_notin rebuilt_notin)
qed

section \<open>Properties of the advertised set\<close>

text \<open>
  C20: after any sequence of the service's operations, every cached packet is the one that
  building the response for the cached data gives: the heartbeat never sends a packet
  that does not match the advertised data.
\<close>

theorem cache_coherent:
  assumes "reachable (\<lambda>m. m = hm_new) (\<lambda>m p m'. m' = discovery_apply nc p m) m"
    and "hm_get m sid = Some c"
  shows "build_response_packet nc sid (ca_data c) = Ok (ca_packet c)"
  using discovery_sys.inv_reachable [OF assms(1)] assms(2) by (rule coherentD)

definition example_codec :: "u8 list nethernet_codec" where
  "example_codec =
     \<lparr>nc_marshal_data = (\<lambda>d. if sd_player_count d = 0 then Err (NethernetError []) else Ok [sd_game_type d]),
      nc_response_new = (\<lambda>bs. bs), nc_marshal = (\<lambda>bs sid. Ok (ucast sid # bs))\<rparr>"

lemmas example_codec_eval =
  example_codec_def build_response_packet_def server_data_of_def default_advertisement_def

theorem cache_coherent_witness:
  "build_response_packet example_codec 9 (ca_data \<lparr>ca_data = default_advertisement, ca_packet = [9, 0]\<rparr>)
    = Ok (ca_packet \<lparr>ca_data = default_advertisement, ca_packet = [9, 0]\<rparr>)"
proof (rule cache_coherent)
  let ?m = "discovery_apply example_codec (Advertise 9 default_advertisement) hm_new"
  have "reachable (\<lambda>m. m = hm_new) (\<lambda>m p m'. m' = discovery_apply example_codec p m) hm_new"
    by (rule reach_init) simp
  then show "reachable (\<lambda>m. m = hm_new) (\<lambda>m p m'. m' = discovery_apply example_codec p m) ?m"
    by (rule reach_step) (rule refl)
  show "hm_get ?m 9 = Some \<lparr>ca_data = default_advertisement, ca_packet = [9, 0]\<rparr>"
    by (simp add: advertise_def example_codec_eval)
qed

text \<open>
  C19: replacing the advertised set, which skips entries that did not change, gives the
  same set as rebuilding every entry from scratch, whatever was advertised before, as long
  as every packet can be built.
\<close>

theorem replace_all_eq_rebuild:
  assumes "coherent nc m" and "buildable nc entries"
  shows "hm_get (replace_all nc entries m) sid = rebuilt nc entries sid"
  using assms by (rule replace_all_rebuilt)

theorem replace_all_eq_rebuild_witness:
  "hm_get (replace_all example_codec [\<lparr>sender_id = 3, ad_data = default_advertisement\<rparr>] hm_new) 3
    = rebuilt example_codec [\<lparr>sender_id = 3, ad_data = default_advertisement\<rparr>] 3"
  by (rule replace_all_eq_rebuild) (simp_all add: buildable_def example_codec_eval)

text \<open>
  An entry whose new packet cannot be built keeps its old advertisement: the replaced
  set then still advertises the outdated data of this id (and nothing for an id that was
  not advertised before).
\<close>

lemma replace_all_failure_keeps_old:
  assumes "hm_ok m" and "filter (\<lambda>e. sender_id e = sid) entries = [e]"
    and "build_response_packet nc sid (ad_data e) = Err err"
  shows "hm_get (replace_all nc entries m) sid = hm_get m sid"
proof -
  have e: "e \<in> set entries" "sender_id e = sid" using assms(2) by (auto dest: filter_eq_ConsD)
  have loop: "hm_get (replace_loop nc es g) sid = hm_get g sid"
    if "set (filter (\<lambda>e. sender_id e = sid) es) \<subseteq> {e}" for es g
    using that assms(3)
    by (induction nc es g rule: replace_loop.induct) (auto split: sum.splits if_splits)
  have "list_ex (\<lambda>e. sender_id e = sid) entries" using e by (auto simp: list_ex_iff)
  then have "hm_get (hm_retain (\<lambda>sid _. list_ex (\<lambda>e. sender_id e = sid) entries) m) sid = hm_get m sid"
    using assms(1) by (simp add: hm_get_retain split: option.splits)
  then show ?thesis
    unfolding replace_all_def by (subst loop) (simp_all add: assms(2) del: set_filter)
qed

text \<open>
  A heartbeat sends every advertised packet to every local target exactly as often as
  the target is configured, and nothing else; the iteration order of the map only permutes
  the datagrams.
\<close>

lemma set_broadcast_loop: "set (broadcast_loop ps ts) = set ps \<times> set ts"
  by (induction ps ts rule: broadcast_loop.induct) auto

lemma set_broadcast_once:
  "hm_ok m \<Longrightarrow> set (broadcast_once h targets m) =
    {(ca_packet c, t) |c t. t \<in> set targets \<and> (\<exists>sid. hm_get m sid = Some c)}"
  using hm_set_values [of m h] by (auto simp: broadcast_once_def set_broadcast_loop ran_def)

lemma broadcast_loop_product: "broadcast_loop ps ts = List.product ps ts"
  by (induction ps ts rule: broadcast_loop.induct) simp_all

lemma mset_product: "mset (List.product xs ys) = (\<Sum>x\<in>#mset xs. image_mset (Pair x) (mset ys))"
  by (induction xs) simp_all

text \<open>What is sent depends on the order of the map only up to permutation.\<close>

lemma mset_broadcast_once:
  assumes "hm_ok m" and "distinct ks" and "set ks = dom (hm_get m)"
  shows "mset (broadcast_once h targets m) =
    mset (List.product (map (\<lambda>k. ca_packet (the (hm_get m k))) ks) targets)"
proof -
  have "mset (map ca_packet (hm_values h m)) = mset (map (\<lambda>k. ca_packet (the (hm_get m k))) ks)"
    using hm_mset_values [OF assms, of h] by (simp add: image_mset.compositionality comp_def)
  then show ?thesis by (simp only: broadcast_once_def broadcast_loop_product mset_product)
qed

lemma length_broadcast_loop: "length (broadcast_loop ps ts) = length ps * length ts"
  by (induction ps ts rule: broadcast_loop.induct) auto

lemma broadcast_complete:
  assumes "hm_ok m"
  shows "set (broadcast_once h targets m) =
      {(ca_packet c, t) |c t. t \<in> set targets \<and> (\<exists>sid. hm_get m sid = Some c)}
    \<and> length (broadcast_once h targets m) = hm_len m * length targets"
  using set_broadcast_once [OF assms, of h targets]
  by (simp add: broadcast_once_def length_broadcast_loop)

end
