(* ===== verification/Discovery_Lifecycle.thy ===== *)
theory Discovery_Lifecycle
  imports Mineshaft_Prelude
begin

text \<open>
  The life of the heartbeat task of the discovery service (\<open>start\<close>, \<open>stop\<close> and \<open>Drop\<close> of
  \<open>crates/core/src/discovery.rs\<close>). The service lives behind an \<open>Arc\<close>: its owners outside
  and every heartbeat task hold one reference each, and \<open>Drop\<close> runs when the last one is
  gone. The task picks, at every turn, either the next tick or, once the token is
  cancelled, its exit; which of two ready branches is taken is not determined.
\<close>

record lifecycle =
  lc_handles :: nat \<comment> \<open>references held outside the heartbeat task\<close>
  lc_cancelled :: bool \<comment> \<open>the cancellation token\<close>
  lc_slot :: bool \<comment> \<open>\<open>self.task\<close> holds a join handle\<close>
  lc_running :: nat \<comment> \<open>heartbeat tasks that have not finished, each owning a reference\<close>
  lc_dropped :: bool \<comment> \<open>\<open>Drop::drop\<close> has run\<close>

definition lc_new :: lifecycle where
  "lc_new = \<lparr>lc_handles = 1, lc_cancelled = False, lc_slot = False, lc_running = 0, lc_dropped = False\<rparr>"

definition lc_start :: "lifecycle \<Rightarrow> lifecycle" where
  "lc_start s = (if lc_slot s then s else s\<lparr>lc_slot := True, lc_running := lc_running s + 1\<rparr>)"

text \<open>\<open>stop\<close> cancels the token; then it takes the join handle and waits for the task.\<close>

definition lc_stop_cancel :: "lifecycle \<Rightarrow> lifecycle" where
  "lc_stop_cancel s = s\<lparr>lc_cancelled := True\<rparr>"

definition lc_stop_join :: "lifecycle \<Rightarrow> lifecycle" where
  "lc_stop_join s = s\<lparr>lc_slot := False\<rparr>"

definition lc_release :: "lifecycle \<Rightarrow> lifecycle" where
  "lc_release s =
     (if lc_handles s + lc_running s = 0 then s\<lparr>lc_dropped := True, lc_cancelled := True\<rparr> else s)"

definition lc_exit :: "lifecycle \<Rightarrow> lifecycle" where
  "lc_exit s = lc_release (s\<lparr>lc_running := lc_running s - 1\<rparr>)"

definition lc_drop_handle :: "lifecycle \<Rightarrow> lifecycle" where
  "lc_drop_handle s = lc_release (s\<lparr>lc_handles := lc_handles s - 1\<rparr>)"

datatype lc_event = EvStart | EvStopCancel | EvStopJoin | EvTick | EvExit | EvClone | EvDropHandle

inductive lc_step :: "lifecycle \<Rightarrow> lc_event \<Rightarrow> lifecycle \<Rightarrow> bool" where
  start: "0 < lc_handles s \<Longrightarrow> lc_step s EvStart (lc_start s)"
| stop_cancel: "0 < lc_handles s \<Longrightarrow> lc_step s EvStopCancel (lc_stop_cancel s)"
| stop_join: "0 < lc_handles s \<Longrightarrow> lc_cancelled s \<Longrightarrow> lc_slot s \<Longrightarrow> lc_running s = 0 \<Longrightarrow>
    lc_step s EvStopJoin (lc_stop_join s)"
| tick: "0 < lc_running s \<Longrightarrow> lc_step s EvTick s"
| exit: "0 < lc_running s \<Longrightarrow> lc_cancelled s \<Longrightarrow> lc_step s EvExit (lc_exit s)"
| clone: "0 < lc_handles s \<Longrightarrow> lc_step s EvClone (s\<lparr>lc_handles := lc_handles s + 1\<rparr>)"
| drop_handle: "0 < lc_handles s \<Longrightarrow> lc_step s EvDropHandle (lc_drop_handle s)"

inductive_cases lc_stepE: "lc_step s e t"

lemmas lc_defs [machine_defs] =
  lc_start_def lc_stop_cancel_def lc_stop_join_def lc_release_def lc_exit_def lc_drop_handle_def

definition lc_init :: "lifecycle \<Rightarrow> bool" where
  "lc_init s \<longleftrightarrow> s = lc_new"

definition lc_inv :: "lifecycle \<Rightarrow> bool" where
  "lc_inv s \<longleftrightarrow> lc_running s \<le> 1 \<and> (\<not> lc_slot s \<longrightarrow> lc_running s = 0)
     \<and> (lc_dropped s \<longleftrightarrow> lc_handles s + lc_running s = 0)"

interpretation lifecycle_sys: invariant_system lc_init lc_step lc_inv
proof unfold_locales
  fix s assume "lc_init s"
  then show "lc_inv s" by (simp add: lc_init_def lc_inv_def lc_new_def)
next
  fix s e t assume "lc_inv s" "lc_step s e t"
  then show "lc_inv t" by (auto elim!: lc_stepE simp: lc_inv_def machine_defs split: if_splits)
qed

text \<open>
  C31: however \<open>start\<close>, \<open>stop\<close> and the heartbeat interleave, at most one heartbeat task
  exists at any time, and once a \<open>stop\<close> has returned none does until the next \<open>start\<close>.
\<close>

theorem single_heartbeat:
  assumes "reachable lc_init lc_step s"
  shows "lc_running s \<le> 1 \<and> (\<not> lc_slot s \<longrightarrow> lc_running s = 0)"
  using lifecycle_sys.inv_reachable [OF assms] by (simp add: lc_inv_def)

lemma reachable_started: "reachable lc_init lc_step (lc_start lc_new)"
proof (rule reach_step)
  show "reachable lc_init lc_step lc_new" by (rule reach_init) (simp add: lc_init_def)
  show "lc_step lc_new EvStart (lc_start lc_new)" by (rule lc_step.start) (simp add: lc_new_def)
qed

theorem single_heartbeat_witness:
  "lc_running (lc_start lc_new) \<le> 1 \<and> lc_slot (lc_start lc_new) \<and> lc_running (lc_start lc_new) = 1"
  using single_heartbeat [OF reachable_started] by (simp add: lc_start_def lc_new_def)

text \<open>
  C40: the cancellation in \<open>Drop\<close> never stops a heartbeat: while a heartbeat runs its own
  reference keeps \<open>Drop\<close> from running, and once all owners have let go of a started
  service that nobody stopped, the heartbeat can never end.
\<close>

theorem dropped_service_keeps_beating:
  assumes "reachable lc_init lc_step s" and "0 < lc_running s" and "lc_handles s = 0"
    and "\<not> lc_cancelled s" and "runs lc_step s es t"
  shows "\<not> lc_dropped t \<and> t = s"
proof -
  from assms(5,2-4) have "t = s"
  proof (induction rule: runs.induct)
    case (runs_cons s e u es t)
    from runs_cons.hyps(1) runs_cons.prems have "u = s" by (auto elim!: lc_stepE)
    with runs_cons show ?case by simp
  qed simp
  moreover have "\<not> lc_dropped s"
    using lifecycle_sys.inv_reachable [OF assms(1)] assms(2) by (simp add: lc_inv_def)
  ultimately show ?thesis by simp
qed

theorem dropped_service_keeps_beating_witness:
  "\<not> lc_dropped (lc_drop_handle (lc_start lc_new))
    \<and> lc_drop_handle (lc_start lc_new) = lc_drop_handle (lc_start lc_new)"
proof (rule dropped_service_keeps_beating [where es = "[EvTick, EvTick]"])
  let ?s = "lc_drop_handle (lc_start lc_new)"
  show "reachable lc_init lc_step ?s"
    by (rule reach_step [OF reachable_started lc_step.drop_handle]) (simp add: machine_defs lc_new_def)
  show r: "0 < lc_running ?s" "lc_handles ?s = 0" "\<not> lc_cancelled ?s"
    by (simp_all add: machine_defs lc_new_def)
  show "runs lc_step ?s [EvTick, EvTick] ?s"
    using lc_step.tick [OF r(1)] by (auto intro: runs.intros)
qed

end
