(* ===== verification/Rust_Encoding.thy ===== *)
theory Rust_Encoding
  imports Rust_Str
begin

text \<open>
  The lossy decoders of the standard library that the platform probes call:
  \<open>String::from_utf8_lossy\<close> on the bytes of a command line and
  \<open>String::from_utf16_lossy\<close> on the name of a process. Every maximal invalid subsequence
  becomes one replacement character.
\<close>

definition REPLACEMENT_CHARACTER :: rchar where
  "REPLACEMENT_CHARACTER = 65533"

section \<open>UTF-8\<close>

definition is_cont :: "nat \<Rightarrow> bool" where
  "is_cont b \<longleftrightarrow> 128 \<le> b \<and> b \<le> 191"

text \<open>The byte at a position, or zero past the end, as the decoder of the library reads it.\<close>

definition byte_at :: "nat list \<Rightarrow> nat \<Rightarrow> nat" where
  "byte_at bs i = (if i < length bs then bs ! i else 0)"

text \<open>The second byte a leading byte of three or four accepts.\<close>

definition second_ok :: "nat \<Rightarrow> nat \<Rightarrow> bool" where
  "second_ok b0 b1 \<longleftrightarrow>
     (if b0 = 224 then 160 \<le> b1 \<and> b1 \<le> 191
      else if b0 = 237 then 128 \<le> b1 \<and> b1 \<le> 159
      else if b0 = 240 then 144 \<le> b1 \<and> b1 \<le> 191
      else if b0 = 244 then 128 \<le> b1 \<and> b1 \<le> 143
      else is_cont b1)"

text \<open>The first character of a non-empty byte string, and how many bytes it takes.\<close>

definition decode_utf8 :: "nat list \<Rightarrow> rchar \<times> nat" where
  "decode_utf8 bs =
     (let b0 = byte_at bs 0; b1 = byte_at bs 1; b2 = byte_at bs 2; b3 = byte_at bs 3
      in if b0 < 128 then (b0, 1)
         else if 194 \<le> b0 \<and> b0 \<le> 223 then
           if is_cont b1 then ((b0 - 192) * 64 + (b1 - 128), 2) else (REPLACEMENT_CHARACTER, 1)
         else if 224 \<le> b0 \<and> b0 \<le> 239 then
           if \<not> second_ok b0 b1 then (REPLACEMENT_CHARACTER, 1)
           else if \<not> is_cont b2 then (REPLACEMENT_CHARACTER, 2)
           else ((b0 - 224) * 4096 + (b1 - 128) * 64 + (b2 - 128), 3)
         else if 240 \<le> b0 \<and> b0 \<le> 244 then
           if \<not> second_ok b0 b1 then (REPLACEMENT_CHARACTER, 1)
           else if \<not> is_cont b2 then (REPLACEMENT_CHARACTER, 2)
           else if \<not> is_cont b3 then (REPLACEMENT_CHARACTER, 3)
           else ((b0 - 240) * 262144 + (b1 - 128) * 4096 + (b2 - 128) * 64 + (b3 - 128), 4)
         else (REPLACEMENT_CHARACTER, 1))"

lemma second_ok_high: "second_ok b0 b1 \<Longrightarrow> 128 \<le> b1"
  by (auto simp: second_ok_def is_cont_def split: if_splits)

lemma decode_utf8_takes [simp]: "0 < snd (decode_utf8 bs)"
  by (simp add: decode_utf8_def Let_def)

function utf8_lossy :: "nat list \<Rightarrow> rstr" where
  "utf8_lossy bs =
     (if bs = [] then [] else fst (decode_utf8 bs) # utf8_lossy (drop (snd (decode_utf8 bs)) bs))"
  by pat_completeness auto
termination by (relation "measure length") simp_all

declare utf8_lossy.simps [simp del]

definition from_utf8_lossy :: "u8 list \<Rightarrow> rstr" where
  "from_utf8_lossy bs = utf8_lossy (map unat bs)"

text \<open>A character never takes an ASCII byte that is not its first.\<close>

lemma decode_utf8_width:
  "(1 < snd (decode_utf8 bs) \<longrightarrow> 128 \<le> byte_at bs 1)
    \<and> (2 < snd (decode_utf8 bs) \<longrightarrow> 128 \<le> byte_at bs 2)
    \<and> (3 < snd (decode_utf8 bs) \<longrightarrow> 128 \<le> byte_at bs 3) \<and> snd (decode_utf8 bs) \<le> 4"
  using second_ok_high [of "byte_at bs 0" "byte_at bs 1"]
  by (simp add: decode_utf8_def Let_def is_cont_def)

lemma decode_utf8_high: "i < snd (decode_utf8 bs) \<Longrightarrow> 0 < i \<Longrightarrow> 128 \<le> byte_at bs i"
proof -
  assume "i < snd (decode_utf8 bs)" and "0 < i"
  moreover from this have "i = 1 \<or> i = 2 \<or> i = 3" using decode_utf8_width [of bs] by linarith
  ultimately show ?thesis using decode_utf8_width [of bs] by blast
qed

lemma decode_utf8_no_ascii:
  assumes "i < snd (decode_utf8 bs)" and "0 < i"
  shows "i < length bs \<and> 128 \<le> bs ! i"
proof -
  have "128 \<le> byte_at bs i"
    using assms by (rule decode_utf8_high)
  then show ?thesis by (auto simp: byte_at_def split: if_splits)
qed

lemma utf8_lossy_ascii_Cons: "c < 128 \<Longrightarrow> utf8_lossy (c # bs) = c # utf8_lossy bs"
  by (subst utf8_lossy.simps) (simp add: decode_utf8_def byte_at_def Let_def)

lemma utf8_lossy_ascii: "\<forall>c\<in>set x. c < 128 \<Longrightarrow> utf8_lossy (x @ bs) = x @ utf8_lossy bs"
  by (induction x) (simp_all add: utf8_lossy_ascii_Cons)

lemma utf8_lossy_split_ascii:
  assumes "c < 128"
  shows "\<exists>p. utf8_lossy (a @ c # bs) = p @ c # utf8_lossy bs"
proof (induction "length a" arbitrary: a rule: less_induct)
  case less
  show ?case
  proof (cases "a = []")
    case True
    then show ?thesis using utf8_lossy_ascii_Cons [OF assms] by auto
  next
    case False
    let ?s = "a @ c # bs"
    let ?n = "snd (decode_utf8 ?s)"
    have "?n \<le> length a"
    proof (rule ccontr)
      assume "\<not> ?thesis"
      then have "128 \<le> ?s ! length a" using decode_utf8_no_ascii [of "length a" ?s] False by simp
      with assms show False by simp
    qed
    then have d: "drop ?n ?s = drop ?n a @ c # bs" by simp
    have "length (drop ?n a) < length a" using False by simp
    then obtain p where "utf8_lossy (drop ?n ?s) = p @ c # utf8_lossy bs"
      using less d by metis
    then have "utf8_lossy ?s = (fst (decode_utf8 ?s) # p) @ c # utf8_lossy bs"
      by (subst utf8_lossy.simps) simp
    then show ?thesis by blast
  qed
qed

text \<open>ASCII text survives decoding in place, whatever bytes surround it.\<close>

lemma utf8_lossy_infix:
  assumes "\<forall>c\<in>set x. c < 128"
  shows "\<exists>p q. utf8_lossy (a @ x @ b) = p @ x @ q"
proof (cases x)
  case (Cons c x')
  then obtain p where "utf8_lossy (a @ c # (x' @ b)) = p @ c # utf8_lossy (x' @ b)"
    using utf8_lossy_split_ascii assms by fastforce
  then show ?thesis using Cons assms utf8_lossy_ascii [of x' b] by auto
qed auto

section \<open>UTF-16\<close>

fun utf16_lossy :: "nat list \<Rightarrow> rstr" where
  "utf16_lossy [] = []"
| "utf16_lossy [u] = [if 55296 \<le> u \<and> u \<le> 57343 then REPLACEMENT_CHARACTER else u]"
| "utf16_lossy (u # v # us) =
     (if u < 55296 \<or> 57343 < u then u # utf16_lossy (v # us)
      else if u \<le> 56319 \<and> 56320 \<le> v \<and> v \<le> 57343
      then (65536 + (u - 55296) * 1024 + (v - 56320)) # utf16_lossy us
      else REPLACEMENT_CHARACTER # utf16_lossy (v # us))"

definition from_utf16_lossy :: "u16 list \<Rightarrow> rstr" where
  "from_utf16_lossy us = utf16_lossy (map unat us)"

lemma utf16_lossy_ascii: "\<forall>c\<in>set x. c < 128 \<Longrightarrow> utf16_lossy x = x"
  by (induction x rule: utf16_lossy.induct) auto

end
