(* ===== verification/Platform_Interface.thy ===== *)
theory Platform_Interface
  imports Core_Types Rust_Encoding
begin

text \<open>
  What the platform crates need of their host: files and directories, external commands and
  the calls of the \<open>socket2\<close> crate, each a field of a record that is an argument of the
  probes. Below them, the contract of a port probe, which the client relies on, and the
  facts about the kernel's UDP tables that Linux and Android share.
\<close>

section \<open>The host\<close>

text \<open>A directory entry is known by its name, absent when the name is not valid Unicode.\<close>

record dir_entry =
  file_name :: "rstr option"

record file_system =
  fs_read_to_string :: "rstr \<Rightarrow> (rstr, io_error) result"
  fs_read :: "rstr \<Rightarrow> (u8 list, io_error) result"
  fs_read_dir :: "rstr \<Rightarrow> ((dir_entry, io_error) result list, io_error) result"

text \<open>\<open>Iterator::flatten\<close> over results drops the errors.\<close>

definition flatten_ok :: "('a, 'e) result list \<Rightarrow> 'a list" where
  "flatten_ok rs = concat (map (\<lambda>r. case r of Inl _ \<Rightarrow> [] | Inr x \<Rightarrow> [x]) rs)"

definition path_join :: "rstr \<Rightarrow> rstr \<Rightarrow> rstr" where
  "path_join p q = p @ lit ''/'' @ q"

definition proc_path :: "rstr \<Rightarrow> rstr \<Rightarrow> rstr" where
  "proc_path pid leaf = path_join (path_join (lit ''/proc'') pid) leaf"

text \<open>
  The calls of \<open>socket2\<close>: \<open>so_new\<close> stands for \<open>Socket::new\<close> with the domain of an address,
  datagram type and UDP; the others configure or bind a socket.
\<close>

record 's socket2 =
  so_new :: "socket_addr \<Rightarrow> ('s, io_error) result"
  so_set_reuse_address :: "bool \<Rightarrow> 's \<Rightarrow> ('s, io_error) result"
  so_set_broadcast :: "bool \<Rightarrow> 's \<Rightarrow> ('s, io_error) result"
  so_bind :: "socket_addr \<Rightarrow> 's \<Rightarrow> ('s, io_error) result"

section \<open>The contract of a port probe\<close>

text \<open>
  On an intact host a probe answers, and it answers exactly for the ports that are bound.
\<close>

locale port_probe =
  fixes probe :: "'env \<Rightarrow> u16 \<Rightarrow> (bool, 'e) result"
    and bound_ports :: "'env \<Rightarrow> u16 set"
    and intact :: "'env \<Rightarrow> bool"
  assumes probe_exact: "intact env \<Longrightarrow> probe env p = Ok (p \<in> bound_ports env)"
begin

lemma probe_total: "intact env \<Longrightarrow> is_ok (probe env p)"
  by (simp add: probe_exact is_ok_def)

lemma probe_free: "intact env \<Longrightarrow> probe env p = Ok False \<longleftrightarrow> p \<notin> bound_ports env"
  by (simp add: probe_exact)

lemma probe_stable: "intact env \<Longrightarrow> intact env' \<Longrightarrow> bound_ports env = bound_ports env' \<Longrightarrow>
    probe env p = probe env' p"
  by (simp add: probe_exact)

end

section \<open>Lines and words\<close>

lemma str_lines_Nil [simp]: "str_lines [] = []"
  by (simp add: str_lines.simps)

lemma str_lines_newline:
  assumes "10 \<notin> set l"
  shows "str_lines (l @ 10 # s) = strip_cr l # str_lines s"
proof -
  have "takeWhile (\<lambda>c. c \<noteq> 10) (l @ 10 # s) = l" and "dropWhile (\<lambda>c. c \<noteq> 10) (l @ 10 # s) = 10 # s"
    using assms by (simp_all add: takeWhile_append dropWhile_append takeWhile_eq_all_conv dropWhile_eq_Nil_conv)
  then show ?thesis by (subst str_lines.simps) simp
qed

lemma str_lines_unlines:
  "\<forall>l\<in>set ls. 10 \<notin> set l \<and> strip_cr l = l \<Longrightarrow> str_lines (concat (map (\<lambda>l. l @ [10]) ls)) = ls"
  by (induction ls) (simp_all add: str_lines_newline)

lemma split_whitespace_skip: "is_whitespace c \<Longrightarrow> split_whitespace (c # s) = split_whitespace s"
  by (subst (1 2) split_whitespace.simps) simp

lemma split_whitespace_word:
  assumes "w \<noteq> []" and "\<forall>c\<in>set w. \<not> is_whitespace c" and "is_whitespace c"
  shows "split_whitespace (w @ c # s) = w # split_whitespace s"
proof -
  have "dropWhile is_whitespace (w @ c # s) = w @ c # s" using assms(1,2) by (cases w) auto
  moreover have "takeWhile (\<lambda>c. \<not> is_whitespace c) (w @ c # s) = w"
    and "dropWhile (\<lambda>c. \<not> is_whitespace c) (w @ c # s) = c # s"
    using assms(2,3) by (simp_all add: takeWhile_append dropWhile_append)
  ultimately show ?thesis
    using split_whitespace_skip [OF assms(3)] assms(1) by (subst split_whitespace.simps) simp
qed

section \<open>The UDP tables of the kernel\<close>

text \<open>
  The ports a table lists: those of the lines, after the header, whose second word ends in
  a colon and the port as four hexadecimal digits.
\<close>

definition line_port :: "rstr \<Rightarrow> u16 \<Rightarrow> bool" where
  "line_port l p \<longleftrightarrow> (\<exists>a. iter_nth 1 (split_whitespace l) = Some (a @ lit '':'' @ fmt_04X p))"

definition table_ports :: "rstr \<Rightarrow> u16 set" where
  "table_ports content = {p. \<exists>l\<in>set (drop 1 (str_lines content)). line_port l p}"

definition udp_tables :: "rstr list" where
  "udp_tables = [lit ''/proc/net/udp'', lit ''/proc/net/udp6'']"

definition kernel_ports :: "file_system \<Rightarrow> u16 set" where
  "kernel_ports fs = {p. \<exists>t\<in>set udp_tables. \<exists>c. fs_read_to_string fs t = Ok c \<and> p \<in> table_ports c}"

text \<open>Every table can be read, or does not exist.\<close>

definition tables_readable :: "file_system \<Rightarrow> bool" where
  "tables_readable fs \<longleftrightarrow>
     (\<forall>t\<in>set udp_tables. case fs_read_to_string fs t of Inl e \<Rightarrow> io_kind e = KNotFound | Inr _ \<Rightarrow> True)"

lemma line_port_iff:
  "line_port l p \<longleftrightarrow>
    (case iter_nth 1 (split_whitespace l) of None \<Rightarrow> False | Some w \<Rightarrow> ends_with w (lit '':'' @ fmt_04X p))"
  by (auto simp: line_port_def ends_with_iff split: option.splits)

text \<open>
  A table as the kernel prints it: a header, then one row per socket. The slot number is
  padded on the left to the width of its column, so a row starts with any number of spaces.
\<close>

record udp_row =
  row_indent :: nat
  row_slot :: rstr
  row_addr :: rstr
  row_port :: u16
  row_rest :: rstr

definition render_row :: "udp_row \<Rightarrow> rstr" where
  "render_row r = replicate (row_indent r) 32 @ row_slot r @ lit '': '' @ row_addr r @ lit '':'' @ fmt_04X (row_port r)
     @ lit '' '' @ row_rest r"

definition render_table :: "rstr \<Rightarrow> udp_row list \<Rightarrow> rstr" where
  "render_table header rows = concat (map (\<lambda>l. l @ [10]) (header # map render_row rows))"

definition plain_line :: "rstr \<Rightarrow> bool" where
  "plain_line l \<longleftrightarrow> 10 \<notin> set l \<and> 13 \<notin> set l"

definition row_wf :: "udp_row \<Rightarrow> bool" where
  "row_wf r \<longleftrightarrow> (\<forall>c\<in>set (row_slot r) \<union> set (row_addr r). \<not> is_whitespace c) \<and> plain_line (row_rest r)"

lemma set_hex_digits: "c \<in> set (hex_digits u n) \<Longrightarrow> 48 \<le> c \<and> c \<le> 102"
proof (induction u n rule: hex_digits.induct)
  case (1 u n)
  show ?case
  proof (cases "n < 16")
    case True
    with "1.prems" show ?thesis by (auto simp: hex_digits.simps [of u n] hex_digit_def split: if_splits)
  next
    case False
    moreover have "n mod 16 < 16" by simp
    ultimately show ?thesis
      using 1 by (auto simp: hex_digits.simps [of u n] hex_digit_def split: if_splits)
  qed
qed

lemma set_fmt_04X: "c \<in> set (fmt_04X p) \<Longrightarrow> 48 \<le> c \<and> c \<le> 102"
  using set_hex_digits by (auto simp: fmt_04X_def pad_zeros_def)

lemma strip_cr_plain: "plain_line l \<Longrightarrow> strip_cr l = l"
  by (auto simp: plain_line_def strip_cr_def dest: last_in_set)

lemma whitespace_chars [simp]: "is_whitespace 10" "is_whitespace 13" "is_whitespace 32" "\<not> is_whitespace 58"
  by (simp_all add: is_whitespace_def)

lemma fmt_04X_no_whitespace: "c \<in> set (fmt_04X p) \<Longrightarrow> \<not> is_whitespace c"
  using set_fmt_04X [of c p] by (simp add: is_whitespace_def)

lemma plain_render_row: "row_wf r \<Longrightarrow> plain_line (render_row r)"
  using fmt_04X_no_whitespace [of 10 "row_port r"] fmt_04X_no_whitespace [of 13 "row_port r"]
    whitespace_chars(1,2)
  by (auto simp: row_wf_def render_row_def plain_line_def simp del: whitespace_chars)

lemma split_whitespace_indent: "split_whitespace (replicate n 32 @ s) = split_whitespace s"
  by (induction n) (simp_all add: split_whitespace_skip)

lemma render_row_words:
  assumes "row_wf r"
  shows "iter_nth 1 (split_whitespace (render_row r)) = Some (row_addr r @ lit '':'' @ fmt_04X (row_port r))"
proof -
  let ?w1 = "row_slot r @ [58]" and ?w2 = "row_addr r @ 58 # fmt_04X (row_port r)"
  have "\<not> is_whitespace c" if "c \<in> set ?w1 \<union> set ?w2" for c
    using that assms fmt_04X_no_whitespace by (auto simp: row_wf_def)
  then have "split_whitespace (?w1 @ 32 # ?w2 @ 32 # row_rest r) = ?w1 # ?w2 # split_whitespace (row_rest r)"
    using split_whitespace_word [of ?w1 32 "?w2 @ 32 # row_rest r"] split_whitespace_word [of ?w2 32 "row_rest r"]
    by simp
  then show ?thesis
    by (simp add: render_row_def split_whitespace_indent iter_nth_def)
qed

lemma line_port_render_row: "row_wf r \<Longrightarrow> line_port (render_row r) p \<longleftrightarrow> p = row_port r"
proof -
  assume "row_wf r"
  then have "line_port (render_row r) p \<longleftrightarrow>
      ends_with (row_addr r @ lit '':'' @ fmt_04X (row_port r)) (lit '':'' @ fmt_04X p)"
    unfolding line_port_iff render_row_words [OF \<open>row_wf r\<close>] by simp
  also have "\<dots> \<longleftrightarrow> lit '':'' @ fmt_04X (row_port r) = lit '':'' @ fmt_04X p"
    by (rule ends_with_append_same_length) simp
  finally show ?thesis by auto
qed

lemma table_ports_render:
  assumes "plain_line header" and "\<forall>r\<in>set rows. row_wf r"
  shows "table_ports (render_table header rows) = row_port ` set rows"
proof -
  have "str_lines (render_table header rows) = header # map render_row rows"
    unfolding render_table_def
    using assms by (intro str_lines_unlines) (auto simp: strip_cr_plain plain_render_row
        plain_line_def [THEN iffD1, THEN conjunct1])
  then show ?thesis using assms(2) by (auto simp: table_ports_def line_port_render_row)
qed

section \<open>Process names\<close>

definition minecraft_names :: "rstr list" where
  "minecraft_names =
     [lit ''Minecraft.Windows.exe'', lit ''minecraft'', lit ''mcpelauncher'',
      lit ''minecraftlinux'', lit ''bedrock_server'', lit ''bedrock-server'']"

definition is_pid :: "rstr \<Rightarrow> bool" where
  "is_pid name \<longleftrightarrow> list_all is_ascii_digit name"

definition comm_matches :: "rstr list \<Rightarrow> rstr \<Rightarrow> bool" where
  "comm_matches names comm \<longleftrightarrow> (\<exists>candidate\<in>set names. str_trim comm = candidate)"

definition haystack_of :: "case_table \<Rightarrow> u8 list \<Rightarrow> rstr" where
  "haystack_of table cmdline = to_lowercase table (replace_char 0 (lit '' '') (from_utf8_lossy cmdline))"

definition cmdline_matches :: "case_table \<Rightarrow> rstr list \<Rightarrow> u8 list \<Rightarrow> bool" where
  "cmdline_matches table names cmdline \<longleftrightarrow>
     (\<exists>candidate\<in>set names. str_contains (haystack_of table cmdline) (to_lowercase table candidate))"

text \<open>
  A name in any ASCII case is found in a command line, whatever bytes, valid UTF-8 or not,
  stand before and after it.
\<close>

lemma replace_char_infix:
  "c \<notin> set x \<Longrightarrow> replace_char c r (a @ x @ b) = replace_char c r a @ x @ replace_char c r b"
  unfolding replace_char_def by (induction x arbitrary: a) auto

lemma map_ascii_lower_range: "map ascii_lower x = map ascii_lower y \<Longrightarrow>
    \<forall>c\<in>set y. 0 < c \<and> c < 128 \<Longrightarrow> \<forall>c\<in>set x. 0 < c \<and> c < 128"
proof
  fix c assume eq: "map ascii_lower x = map ascii_lower y" and y: "\<forall>c\<in>set y. 0 < c \<and> c < 128" and "c \<in> set x"
  then have "ascii_lower c \<in> ascii_lower ` set y" by (metis image_eqI image_set)
  then obtain d where "d \<in> set y" "ascii_lower c = ascii_lower d" by auto
  with y show "0 < c \<and> c < 128" by (auto simp: ascii_lower_def split: if_splits)
qed

lemma cmdline_matches_infix:
  assumes "candidate \<in> set names" and "\<forall>c\<in>set candidate. 0 < c \<and> c < 128"
    and "map ascii_lower (map unat x) = map ascii_lower candidate"
  shows "cmdline_matches table names (a @ x @ b)"
proof -
  let ?x = "map unat x"
  have x: "\<forall>c\<in>set ?x. 0 < c \<and> c < 128" using assms(2,3) by (rule map_ascii_lower_range [rotated])
  then obtain p q where "from_utf8_lossy (a @ x @ b) = p @ ?x @ q"
    using utf8_lossy_infix [of ?x "map unat a" "map unat b"] by (auto simp: from_utf8_lossy_def)
  then have "replace_char 0 (lit '' '') (from_utf8_lossy (a @ x @ b))
      = replace_char 0 (lit '' '') p @ ?x @ replace_char 0 (lit '' '') q"
    using replace_char_infix [of 0 ?x "lit '' ''" p q] x by (metis less_numeral_extra(3))
  then obtain a' b' where "haystack_of table (a @ x @ b) = a' @ map ascii_lower ?x @ b'"
    using to_lowercase_infix [of ?x table] x unfolding haystack_of_def by metis
  moreover have "to_lowercase table candidate = map ascii_lower ?x"
    using assms(2,3) by (simp add: to_lowercase_ascii)
  ultimately have "str_contains (haystack_of table (a @ x @ b)) (to_lowercase table candidate)"
    by (auto simp: str_contains_iff)
  then show ?thesis using assms(1) by (auto simp: cmdline_matches_def)
qed

end
