(* ===== verification/Platform_Linux.thy ===== *)
theory Platform_Linux
  imports Platform_Interface
begin

text \<open>
  The Linux crate (\<open>crates/platform/linux/src/lib.rs\<close>): port probing over the UDP tables of
  the kernel, detection of a Minecraft process over \<open>/proc\<close>, and socket creation.
\<close>

section \<open>Definitions\<close>

datatype linux_error =
  LinuxIo io_error
| LinuxCommand rstr

fun display_linux_error :: "linux_error \<Rightarrow> rstr" where
  "display_linux_error (LinuxIo e) = lit ''io error: '' @ io_text e"
| "display_linux_error (LinuxCommand s) = lit ''command failed: '' @ s"

fun linux_scan_lines :: "rstr list \<Rightarrow> rstr \<Rightarrow> bool" where
  "linux_scan_lines [] needle = False"
| "linux_scan_lines (line # rest) needle =
     (let local_address = iter_nth 1 (split_whitespace line)
      in if (case local_address of None \<Rightarrow> False | Some local \<Rightarrow> ends_with local needle)
         then True else linux_scan_lines rest needle)"

definition linux_table_has_port :: "file_system \<Rightarrow> rstr \<Rightarrow> rstr \<Rightarrow> (bool, linux_error) result" where
  "linux_table_has_port fs path needle =
     (case fs_read_to_string fs path of
        Inr content \<Rightarrow> Ok (linux_scan_lines (drop 1 (str_lines content)) needle)
      | Inl e \<Rightarrow> if io_kind e = KNotFound then Ok False else Err (LinuxIo e))"

fun linux_any_table :: "file_system \<Rightarrow> rstr \<Rightarrow> rstr list \<Rightarrow> (bool, linux_error) result" where
  "linux_any_table fs needle [] = Ok False"
| "linux_any_table fs needle (table # tables) =
     (case linux_table_has_port fs table needle of
        Inl e \<Rightarrow> Err e
      | Inr found \<Rightarrow> if found then Ok True else linux_any_table fs needle tables)"

definition linux_udp_port_bound :: "file_system \<Rightarrow> u16 \<Rightarrow> (bool, linux_error) result" where
  "linux_udp_port_bound fs port =
     linux_any_table fs (lit '':'' @ fmt_04X port) [lit ''/proc/net/udp'', lit ''/proc/net/udp6'']"

fun linux_comm_loop :: "file_system \<Rightarrow> rstr list \<Rightarrow> dir_entry list \<Rightarrow> bool" where
  "linux_comm_loop fs names [] = False"
| "linux_comm_loop fs names (entry # entries) =
     (case file_name entry of
        None \<Rightarrow> linux_comm_loop fs names entries
      | Some name \<Rightarrow>
          if \<not> is_pid name then linux_comm_loop fs names entries
          else case fs_read_to_string fs (proc_path name (lit ''comm'')) of
                 Inl _ \<Rightarrow> linux_comm_loop fs names entries
               | Inr comm \<Rightarrow> if comm_matches names comm then True else linux_comm_loop fs names entries)"

definition proc_comm_matches :: "file_system \<Rightarrow> rstr list \<Rightarrow> bool" where
  "proc_comm_matches fs names =
     (case fs_read_dir fs (lit ''/proc'') of
        Inl _ \<Rightarrow> False
      | Inr entries \<Rightarrow> linux_comm_loop fs names (flatten_ok entries))"

fun linux_cmdline_loop :: "case_table \<Rightarrow> file_system \<Rightarrow> rstr list \<Rightarrow> dir_entry list \<Rightarrow> bool" where
  "linux_cmdline_loop table fs names [] = False"
| "linux_cmdline_loop table fs names (entry # entries) =
     (case file_name entry of
        None \<Rightarrow> linux_cmdline_loop table fs names entries
      | Some name \<Rightarrow>
          if \<not> is_pid name then linux_cmdline_loop table fs names entries
          else case fs_read fs (proc_path name (lit ''cmdline'')) of
                 Inl _ \<Rightarrow> linux_cmdline_loop table fs names entries
               | Inr cmdline \<Rightarrow>
                   if cmdline_matches table names cmdline then True
                   else linux_cmdline_loop table fs names entries)"

definition proc_cmdline_matches :: "case_table \<Rightarrow> file_system \<Rightarrow> rstr list \<Rightarrow> bool" where
  "proc_cmdline_matches table fs names =
     (case fs_read_dir fs (lit ''/proc'') of
        Inl _ \<Rightarrow> False
      | Inr entries \<Rightarrow> linux_cmdline_loop table fs names (flatten_ok entries))"

text \<open>An external command: whether it could be run, and whether it exited with success.\<close>

type_synonym command_runner = "rstr \<Rightarrow> rstr list \<Rightarrow> (bool, io_error) result"

definition command_succeeds :: "command_runner \<Rightarrow> rstr \<Rightarrow> rstr list \<Rightarrow> bool" where
  "command_succeeds run program args = (case run program args of Inl _ \<Rightarrow> False | Inr success \<Rightarrow> success)"

text \<open>The two scans read \<open>/proc\<close> one after the other: \<open>fs'\<close> is the file system at the second.\<close>

definition linux_minecraft_process_running ::
  "case_table \<Rightarrow> command_runner \<Rightarrow> file_system \<Rightarrow> file_system \<Rightarrow> bool" where
  "linux_minecraft_process_running table run fs fs' =
     (if proc_comm_matches fs minecraft_names \<or> proc_cmdline_matches table fs' minecraft_names then True
      else command_succeeds run (lit ''pgrep'') [lit ''-f'', lit ''Minecraft.Windows.exe'']
        \<or> command_succeeds run (lit ''pgrep'') [lit ''-f'', lit ''bedrock_server''])"

definition linux_create_udp_socket :: "'s socket2 \<Rightarrow> socket_addr \<Rightarrow> ('s, linux_error) result" where
  "linux_create_udp_socket so addr =
     (case so_new so addr of
        Inl e \<Rightarrow> Err (LinuxIo e)
      | Inr s \<Rightarrow>
     (case so_set_reuse_address so True s of
        Inl e \<Rightarrow> Err (LinuxIo e)
      | Inr s \<Rightarrow>
     (case so_set_broadcast so True s of
        Inl e \<Rightarrow> Err (LinuxIo e)
      | Inr s \<Rightarrow> map_err LinuxIo (so_bind so addr s))))"

section \<open>Port probing\<close>

lemma linux_scan_lines_iff:
  "linux_scan_lines ls (lit '':'' @ fmt_04X p) \<longleftrightarrow> (\<exists>l\<in>set ls. line_port l p)"
  by (induction ls) (auto simp: line_port_iff Let_def simp del: lit_Cons)

lemma linux_table_has_port_eq:
  "linux_table_has_port fs path (lit '':'' @ fmt_04X p) =
     (case fs_read_to_string fs path of
        Inr content \<Rightarrow> Ok (p \<in> table_ports content)
      | Inl e \<Rightarrow> if io_kind e = KNotFound then Ok False else Err (LinuxIo e))"
  unfolding linux_table_has_port_def linux_scan_lines_iff by (auto simp: table_ports_def split: sum.split)

lemma linux_probe_exact:
  "tables_readable fs \<Longrightarrow> linux_udp_port_bound fs p = Ok (p \<in> kernel_ports fs)"
  unfolding linux_udp_port_bound_def tables_readable_def kernel_ports_def udp_tables_def
  by (cases "fs_read_to_string fs (lit ''/proc/net/udp'')"; cases "fs_read_to_string fs (lit ''/proc/net/udp6'')")
    (auto simp: linux_table_has_port_eq simp del: lit_Cons)

interpretation linux_probe: port_probe linux_udp_port_bound kernel_ports tables_readable
  by unfold_locales (rule linux_probe_exact)

text \<open>A host with the given two tables.\<close>

definition host_with_tables :: "rstr \<Rightarrow> rstr \<Rightarrow> file_system" where
  "host_with_tables udp udp6 =
     \<lparr>fs_read_to_string = (\<lambda>path. if path = lit ''/proc/net/udp'' then Ok udp
         else if path = lit ''/proc/net/udp6'' then Ok udp6 else Err \<lparr>io_kind = KNotFound, io_text = []\<rparr>),
      fs_read = (\<lambda>_. Err \<lparr>io_kind = KNotFound, io_text = []\<rparr>), fs_read_dir = (\<lambda>_. Ok [])\<rparr>"

text \<open>
  C25: on Linux, with both tables readable and printed as the kernel prints them (a header
  line, then a row for every socket with a padded slot number, the local address and port,
  and any further columns), a port is reported bound exactly when a row of the IPv4 or of
  the IPv6 table has it as its local port: no address, remote port or other column is taken
  for it, and no two ports are confused.
\<close>

theorem linux_udp_port_bound_exact:
  assumes "plain_line header" and "plain_line header6"
    and "\<forall>r\<in>set rows. row_wf r" and "\<forall>r\<in>set rows6. row_wf r"
    and "fs_read_to_string fs (lit ''/proc/net/udp'') = Ok (render_table header rows)"
    and "fs_read_to_string fs (lit ''/proc/net/udp6'') = Ok (render_table header6 rows6)"
  shows "linux_udp_port_bound fs p = Ok (p \<in> row_port ` (set rows \<union> set rows6))"
proof -
  have "tables_readable fs" using assms(5,6) by (simp add: tables_readable_def udp_tables_def)
  moreover have "kernel_ports fs = row_port ` (set rows \<union> set rows6)"
    using assms(5,6) table_ports_render [OF assms(1,3)] table_ports_render [OF assms(2,4)]
    by (auto simp: kernel_ports_def udp_tables_def simp del: lit_Cons)
  ultimately show ?thesis by (simp add: linux_probe.probe_exact)
qed

definition sample_rows :: "udp_row list" where
  "sample_rows =
     [\<lparr>row_indent = 2, row_slot = lit ''123'', row_addr = lit ''0100007F'', row_port = 53,
       row_rest = lit ''00000000:0000 07 00000000:00000000''\<rparr>,
      \<lparr>row_indent = 4, row_slot = lit ''7'', row_addr = lit ''00000000'', row_port = 7551,
       row_rest = lit ''00000000:270F 07 00000000:00000000''\<rparr>,
      \<lparr>row_indent = 0, row_slot = lit ''21845'', row_addr = lit ''00000000'', row_port = 68,
       row_rest = lit ''00000000:0000 07 00000000:00000000''\<rparr>]"

definition sample_header :: rstr where
  "sample_header = lit ''  sl  local_address rem_address   st tx_queue rx_queue''"

lemma sample_wf: "plain_line sample_header" "\<forall>r\<in>set sample_rows. row_wf r"
  by (simp_all add: sample_header_def sample_rows_def plain_line_def row_wf_def is_whitespace_def)

theorem linux_udp_port_bound_exact_witness:
  "linux_udp_port_bound (host_with_tables (render_table sample_header sample_rows)
      (render_table sample_header [])) 7551 = Ok True
    \<and> linux_udp_port_bound (host_with_tables (render_table sample_header sample_rows)
      (render_table sample_header [])) 9999 = Ok False"
proof -
  let ?fs = "host_with_tables (render_table sample_header sample_rows) (render_table sample_header [])"
  have "linux_udp_port_bound ?fs p = Ok (p \<in> row_port ` (set sample_rows \<union> set []))" for p
    by (rule linux_udp_port_bound_exact [OF sample_wf(1) sample_wf(1) sample_wf(2)])
      (simp_all add: host_with_tables_def)
  then show ?thesis by (simp add: sample_rows_def)
qed

text \<open>
  A table that exists but cannot be read is an error, except an unreadable IPv6 table
  when the port is found in the IPv4 table; a missing table counts as empty.
\<close>

lemma linux_udp_port_bound_errors:
  "(\<exists>e. linux_udp_port_bound fs p = Err e) \<longleftrightarrow>
    (\<exists>e. io_kind e \<noteq> KNotFound \<and>
      (fs_read_to_string fs (lit ''/proc/net/udp'') = Err e
       \<or> fs_read_to_string fs (lit ''/proc/net/udp6'') = Err e
         \<and> (\<forall>c. fs_read_to_string fs (lit ''/proc/net/udp'') = Ok c \<longrightarrow> p \<notin> table_ports c)))"
  unfolding linux_udp_port_bound_def
  by (cases "fs_read_to_string fs (lit ''/proc/net/udp'')"; cases "fs_read_to_string fs (lit ''/proc/net/udp6'')")
    (auto simp: linux_table_has_port_eq simp del: lit_Cons)

section \<open>Process detection\<close>

definition visible_pids :: "file_system \<Rightarrow> rstr set" where
  "visible_pids fs = {name. is_pid name \<and> (\<exists>es. fs_read_dir fs (lit ''/proc'') = Ok es
     \<and> (\<exists>d\<in>set (flatten_ok es). file_name d = Some name))}"

lemma linux_comm_loop_iff:
  "linux_comm_loop fs names es \<longleftrightarrow>
    (\<exists>d\<in>set es. \<exists>pid c. file_name d = Some pid \<and> is_pid pid
      \<and> fs_read_to_string fs (proc_path pid (lit ''comm'')) = Ok c \<and> comm_matches names c)"
  by (induction es) (auto split: option.splits sum.splits)

lemma linux_cmdline_loop_iff:
  "linux_cmdline_loop table fs names es \<longleftrightarrow>
    (\<exists>d\<in>set es. \<exists>pid c. file_name d = Some pid \<and> is_pid pid
      \<and> fs_read fs (proc_path pid (lit ''cmdline'')) = Ok c \<and> cmdline_matches table names c)"
  by (induction es) (auto split: option.splits sum.splits)

lemma proc_comm_matches_iff:
  "proc_comm_matches fs names \<longleftrightarrow>
    (\<exists>pid\<in>visible_pids fs. \<exists>c. fs_read_to_string fs (proc_path pid (lit ''comm'')) = Ok c \<and> comm_matches names c)"
  by (auto simp: proc_comm_matches_def visible_pids_def linux_comm_loop_iff split: sum.splits)

lemma proc_cmdline_matches_iff:
  "proc_cmdline_matches table fs names \<longleftrightarrow>
    (\<exists>pid\<in>visible_pids fs. \<exists>c. fs_read fs (proc_path pid (lit ''cmdline'')) = Ok c \<and> cmdline_matches table names c)"
  by (auto simp: proc_cmdline_matches_def visible_pids_def linux_cmdline_loop_iff split: sum.splits)

lemma minecraft_names_ascii: "candidate \<in> set minecraft_names \<Longrightarrow> \<forall>c\<in>set candidate. 0 < c \<and> c < 128"
  by (auto simp: minecraft_names_def)

text \<open>
  C27: a running game is never missed on Linux: when the command line of any process visible
  under \<open>/proc\<close> contains one of the known names, in any ASCII case and between any other
  bytes (valid UTF-8 or not), detection answers true, whatever the Unicode tables say about
  other characters and whatever the external commands do.
\<close>

theorem linux_detects_command_line:
  assumes "pid \<in> visible_pids fs'"
    and "fs_read fs' (proc_path pid (lit ''cmdline'')) = Ok (before @ name @ after)"
    and "candidate \<in> set minecraft_names"
    and "map ascii_lower (map unat name) = map ascii_lower candidate"
  shows "linux_minecraft_process_running table run fs fs'"
proof -
  have "cmdline_matches table minecraft_names (before @ name @ after)"
    using assms(3) minecraft_names_ascii [OF assms(3)] assms(4) by (rule cmdline_matches_infix)
  then show ?thesis
    using assms(1,2) by (auto simp: linux_minecraft_process_running_def proc_cmdline_matches_iff)
qed

definition host_with_process :: "rstr \<Rightarrow> u8 list \<Rightarrow> file_system" where
  "host_with_process pid cmdline =
     \<lparr>fs_read_to_string = (\<lambda>_. Err \<lparr>io_kind = KPermissionDenied, io_text = []\<rparr>),
      fs_read = (\<lambda>path. if path = proc_path pid (lit ''cmdline'') then Ok cmdline
         else Err \<lparr>io_kind = KNotFound, io_text = []\<rparr>),
      fs_read_dir = (\<lambda>_. Ok [Ok \<lparr>file_name = None\<rparr>, Ok \<lparr>file_name = Some pid\<rparr>])\<rparr>"

lemma visible_in_host_with_process: "is_pid pid \<Longrightarrow> pid \<in> visible_pids (host_with_process pid cmdline)"
  by (simp add: visible_pids_def host_with_process_def flatten_ok_def)

theorem linux_detects_command_line_witness:
  "linux_minecraft_process_running (\<lambda>_ _. []) (\<lambda>_ _. Ok False) (host_with_process (lit ''7'') [])
     (host_with_process (lit ''7'') ([255, 0] @ map of_nat (lit ''MineCraft'') @ [0, 200]))"
proof (rule linux_detects_command_line)
  show "lit ''7'' \<in> visible_pids (host_with_process (lit ''7'') ([255, 0] @ map of_nat (lit ''MineCraft'') @ [0, 200]))"
    by (rule visible_in_host_with_process) (simp add: is_pid_def is_ascii_digit_def)
  show "fs_read (host_with_process (lit ''7'') ([255, 0] @ map of_nat (lit ''MineCraft'') @ [0, 200]))
      (proc_path (lit ''7'') (lit ''cmdline'')) = Ok ([255, 0] @ map of_nat (lit ''MineCraft'') @ [0, 200])"
    by (simp add: host_with_process_def)
  show "lit ''minecraft'' \<in> set minecraft_names" by (simp add: minecraft_names_def)
  show "map ascii_lower (map unat (map of_nat (lit ''MineCraft'') :: u8 list)) = map ascii_lower (lit ''minecraft'')"
    by (simp add: ascii_lower_def)
qed

end
