(* ===== verification/Platform_Android.thy ===== *)
theory Platform_Android
  imports Platform_Linux
begin

text \<open>
  The Android crate (\<open>crates/platform/android/src/lib.rs\<close>): the port probe of Linux, a
  process scan in one pass that treats a hidden process list as a running game, socket
  creation, and the callback that exempts a socket from a VPN tunnel. The comparison with
  the Linux crate is what the import is for.
\<close>

section \<open>Definitions\<close>

datatype android_error = AndroidIo io_error

fun display_android_error :: "android_error \<Rightarrow> rstr" where
  "display_android_error (AndroidIo e) = lit ''io error: '' @ io_text e"

fun android_scan_lines :: "rstr list \<Rightarrow> rstr \<Rightarrow> bool" where
  "android_scan_lines [] needle = False"
| "android_scan_lines (line # rest) needle =
     (let local_address = iter_nth 1 (split_whitespace line)
      in if (case local_address of None \<Rightarrow> False | Some local \<Rightarrow> ends_with local needle)
         then True else android_scan_lines rest needle)"

definition android_table_has_port :: "file_system \<Rightarrow> rstr \<Rightarrow> rstr \<Rightarrow> (bool, android_error) result" where
  "android_table_has_port fs path needle =
     (case fs_read_to_string fs path of
        Inr content \<Rightarrow> Ok (android_scan_lines (drop 1 (str_lines content)) needle)
      | Inl e \<Rightarrow> if io_kind e = KNotFound then Ok False else Err (AndroidIo e))"

fun android_any_table :: "file_system \<Rightarrow> rstr \<Rightarrow> rstr list \<Rightarrow> (bool, android_error) result" where
  "android_any_table fs needle [] = Ok False"
| "android_any_table fs needle (table # tables) =
     (case android_table_has_port fs table needle of
        Inl e \<Rightarrow> Err e
      | Inr found \<Rightarrow> if found then Ok True else android_any_table fs needle tables)"

definition android_udp_port_bound :: "file_system \<Rightarrow> u16 \<Rightarrow> (bool, android_error) result" where
  "android_udp_port_bound fs port =
     android_any_table fs (lit '':'' @ fmt_04X port) [lit ''/proc/net/udp'', lit ''/proc/net/udp6'']"

definition android_names :: "rstr list" where
  "android_names =
     [lit ''Minecraft.Windows.exe'', lit ''minecraft'', lit ''mcpelauncher'',
      lit ''minecraftlinux'', lit ''bedrock_server'', lit ''bedrock-server'']"

text \<open>The loop over \<open>/proc\<close>, with \<open>any_visible\<close>; an inner \<open>return\<close> ends it with \<open>Some True\<close>.\<close>

fun visible_loop :: "case_table \<Rightarrow> file_system \<Rightarrow> rstr list \<Rightarrow> bool \<Rightarrow> dir_entry list \<Rightarrow> bool option" where
  "visible_loop table fs names any_visible [] = (if any_visible then Some False else None)"
| "visible_loop table fs names any_visible (entry # entries) =
     (case file_name entry of
        None \<Rightarrow> visible_loop table fs names any_visible entries
      | Some name \<Rightarrow>
          if \<not> is_pid name then visible_loop table fs names any_visible entries
          else if (case fs_read_to_string fs (proc_path name (lit ''comm'')) of
                     Inl _ \<Rightarrow> False | Inr comm \<Rightarrow> comm_matches names comm)
          then Some True
          else if (case fs_read fs (proc_path name (lit ''cmdline'')) of
                     Inl _ \<Rightarrow> False | Inr cmdline \<Rightarrow> cmdline_matches table names cmdline)
          then Some True
          else visible_loop table fs names True entries)"

definition proc_visible_matches :: "case_table \<Rightarrow> file_system \<Rightarrow> rstr list \<Rightarrow> bool option" where
  "proc_visible_matches table fs names =
     (case fs_read_dir fs (lit ''/proc'') of
        Inl _ \<Rightarrow> None
      | Inr entries \<Rightarrow> visible_loop table fs names False (flatten_ok entries))"

definition android_minecraft_process_running :: "case_table \<Rightarrow> file_system \<Rightarrow> bool" where
  "android_minecraft_process_running table fs =
     (case proc_visible_matches table fs android_names of Some found \<Rightarrow> found | None \<Rightarrow> True)"

definition android_create_udp_socket :: "'s socket2 \<Rightarrow> socket_addr \<Rightarrow> ('s, android_error) result" where
  "android_create_udp_socket so addr =
     (case so_new so addr of
        Inl e \<Rightarrow> Err (AndroidIo e)
      | Inr s \<Rightarrow>
     (case so_set_reuse_address so True s of
        Inl e \<Rightarrow> Err (AndroidIo e)
      | Inr s \<Rightarrow>
     (case so_set_broadcast so True s of
        Inl e \<Rightarrow> Err (AndroidIo e)
      | Inr s \<Rightarrow> map_err AndroidIo (so_bind so addr s))))"

text \<open>The global slot of the protection callback: empty until the first registration.\<close>

type_synonym protect_slot = "(i32 \<Rightarrow> bool) option"

definition protect_socket_slot :: protect_slot where
  "protect_socket_slot = None"

definition set_protect_socket_callback :: "(i32 \<Rightarrow> bool) \<Rightarrow> protect_slot \<Rightarrow> protect_slot" where
  "set_protect_socket_callback callback slot = Some callback"

definition clear_protect_socket_callback :: "protect_slot \<Rightarrow> protect_slot" where
  "clear_protect_socket_callback slot = None"

definition protect_socket :: "protect_slot \<Rightarrow> i32 \<Rightarrow> bool" where
  "protect_socket slot fd = (case slot of Some callback \<Rightarrow> callback fd | None \<Rightarrow> True)"

section \<open>Port probing\<close>

text \<open>The two crates hold the same code up to their error type.\<close>

lemma android_scan_lines_eq: "android_scan_lines ls needle = linux_scan_lines ls needle"
  by (induction ls) (simp_all add: Let_def)

fun android_of_linux :: "linux_error \<Rightarrow> android_error" where
  "android_of_linux (LinuxIo e) = AndroidIo e"
| "android_of_linux (LinuxCommand s) = AndroidIo \<lparr>io_kind = KOther, io_text = s\<rparr>"

lemma android_any_table_eq:
  "android_any_table fs needle ts = map_err android_of_linux (linux_any_table fs needle ts)"
  by (induction ts)
    (simp_all add: android_table_has_port_def linux_table_has_port_def android_scan_lines_eq map_err_def
      split: sum.split)

lemma android_probe_eq: "android_udp_port_bound fs p = map_err android_of_linux (linux_udp_port_bound fs p)"
  by (simp add: android_udp_port_bound_def linux_udp_port_bound_def android_any_table_eq)

interpretation android_probe: port_probe android_udp_port_bound kernel_ports tables_readable
  by unfold_locales (simp add: android_probe_eq linux_probe.probe_exact map_err_def)

section \<open>Process detection\<close>

lemma visible_loop_eq:
  "visible_loop table fs names v es =
     (if linux_comm_loop fs names es \<or> linux_cmdline_loop table fs names es then Some True
      else if v \<or> (\<exists>d\<in>set es. \<exists>pid. file_name d = Some pid \<and> is_pid pid) then Some False
      else None)"
proof (induction es arbitrary: v)
  case (Cons d es)
  show ?case
  proof (cases "file_name d")
    case None
    with Cons show ?thesis by simp
  next
    case (Some name)
    with Cons show ?thesis
      by (cases "is_pid name"; cases "fs_read_to_string fs (proc_path name (lit ''comm''))";
          cases "fs_read fs (proc_path name (lit ''cmdline''))") (simp_all del: lit_Cons)
  qed
qed simp

lemma proc_visible_matches_eq:
  "proc_visible_matches table fs names =
     (if proc_comm_matches fs names \<or> proc_cmdline_matches table fs names then Some True
      else if visible_pids fs \<noteq> {} then Some False else None)"
  by (cases "fs_read_dir fs (lit ''/proc'')")
    (auto simp: proc_visible_matches_def proc_comm_matches_def proc_cmdline_matches_def visible_pids_def
      visible_loop_eq simp del: lit_Cons)

text \<open>
  C29: the single pass of Android gives the answer of the two passes of Linux on the same
  file system whenever at least one process is visible; when none is, it reports a running
  game.
\<close>

theorem android_process_running_eq:
  "android_minecraft_process_running table fs \<longleftrightarrow>
    visible_pids fs = {} \<or> proc_comm_matches fs minecraft_names \<or> proc_cmdline_matches table fs minecraft_names"
  by (auto simp: android_minecraft_process_running_def proc_visible_matches_eq android_names_def
      minecraft_names_def simp del: lit_Cons)

section \<open>The protection callback\<close>

datatype slot_op = SetCallback "i32 \<Rightarrow> bool" | ClearCallback

fun apply_slot_op :: "slot_op \<Rightarrow> protect_slot \<Rightarrow> protect_slot" where
  "apply_slot_op (SetCallback f) slot = set_protect_socket_callback f slot"
| "apply_slot_op ClearCallback slot = clear_protect_socket_callback slot"

lemma protect_socket_after:
  "protect_socket (fold apply_slot_op ops protect_socket_slot) fd =
     (if ops = [] then True else case last ops of SetCallback f \<Rightarrow> f fd | ClearCallback \<Rightarrow> True)"
proof (cases ops rule: rev_cases)
  case (snoc ops' op)
  then show ?thesis
    by (cases op) (auto simp: protect_socket_def set_protect_socket_callback_def
        clear_protect_socket_callback_def)
qed (simp add: protect_socket_def protect_socket_slot_def)

end
