(* ===== verification/Platform_Windows.thy ===== *)
theory Platform_Windows
  imports Platform_Interface
begin

unbundle bit_operations_syntax

text \<open>
  The Windows crate (\<open>crates/platform/windows/src/lib.rs\<close>): the owner of a UDP port from the
  table of \<open>GetExtendedUdpTable\<close>, detection of the game in a ToolHelp snapshot, socket
  creation and the loopback exemption; and the stubs every other target gets. The Win32
  calls are fields of records that are arguments.
\<close>

section \<open>Definitions\<close>

datatype windows_error =
  WindowsIo io_error
| WindowsCommand rstr
| WindowsUnsupported

fun display_windows_error :: "windows_error \<Rightarrow> rstr" where
  "display_windows_error (WindowsIo e) = lit ''io error: '' @ io_text e"
| "display_windows_error (WindowsCommand s) = lit ''command failed: '' @ s"
| "display_windows_error WindowsUnsupported = lit ''unsupported platform for windows backend''"

record udp_owner_row =
  dwLocalPort :: u32
  dwOwningPid :: u32

text \<open>
  \<open>GetExtendedUdpTable\<close> for IPv4: \<open>ut_size\<close> is the size the first call reports, \<open>ut_fill n\<close>
  the status of the second call with a buffer of \<open>n\<close> bytes and the rows it wrote, if it
  wrote any. A buffer it did not write to still holds zeros, which read as no rows.
\<close>

record udp_table_api =
  ut_size :: u32
  ut_fill :: "u32 \<Rightarrow> u32 \<times> udp_owner_row list option"
  last_os_error :: io_error

definition ERROR_INSUFFICIENT_BUFFER :: u32 where
  "ERROR_INSUFFICIENT_BUFFER = 122"

text \<open>\<open>u16::from_be\<close> on the little-endian Windows targets: the two bytes change places.\<close>

definition u16_from_be :: "u16 \<Rightarrow> u16" where
  "u16_from_be w = push_bit 8 w OR drop_bit 8 w"

fun find_row :: "u16 \<Rightarrow> udp_owner_row list \<Rightarrow> u32 option" where
  "find_row port [] = None"
| "find_row port (row # rows) =
     (let local_port = u16_from_be (ucast (dwLocalPort row))
      in if local_port = port then Some (dwOwningPid row) else find_row port rows)"

definition owner_pid_of_port :: "udp_table_api \<Rightarrow> u16 \<Rightarrow> (u32 option, windows_error) result" where
  "owner_pid_of_port api port =
     (let size = ut_size api
      in if size = 0 then Ok None
         else let (status, written) = ut_fill api size
              in if status \<noteq> 0 \<and> status \<noteq> ERROR_INSUFFICIENT_BUFFER
                 then Err (WindowsIo (last_os_error api))
                 else Ok (find_row port (case written of None \<Rightarrow> [] | Some rows \<Rightarrow> rows)))"

definition windows_udp_port_bound :: "udp_table_api \<Rightarrow> u16 \<Rightarrow> (bool, windows_error) result" where
  "windows_udp_port_bound api port =
     (case owner_pid_of_port api port of Inl e \<Rightarrow> Err e | Inr pid \<Rightarrow> Ok (pid \<noteq> None))"

text \<open>
  A ToolHelp snapshot: absent when it could not be taken, else the \<open>szExeFile\<close> arrays in the
  order \<open>Process32FirstW\<close> and \<open>Process32NextW\<close> give them.
\<close>

type_synonym process_snapshot = "u16 list list option"

fun process_loop :: "u16 list list \<Rightarrow> bool" where
  "process_loop [] = False"
| "process_loop (exe # rest) =
     (let name = from_utf16_lossy (takeWhile (\<lambda>c. c \<noteq> 0) exe)
      in if eq_ignore_ascii_case name (lit ''Minecraft.Windows.exe'') then True else process_loop rest)"

definition windows_minecraft_process_running :: "process_snapshot \<Rightarrow> bool" where
  "windows_minecraft_process_running snapshot =
     (case snapshot of None \<Rightarrow> False | Some entries \<Rightarrow> process_loop entries)"

definition windows_create_udp_socket :: "'s socket2 \<Rightarrow> socket_addr \<Rightarrow> ('s, windows_error) result" where
  "windows_create_udp_socket so addr =
     (case so_new so addr of
        Inl e \<Rightarrow> Err (WindowsIo e)
      | Inr s \<Rightarrow>
     (case so_set_reuse_address so True s of
        Inl e \<Rightarrow> Err (WindowsIo e)
      | Inr s \<Rightarrow>
     (case so_set_broadcast so True s of
        Inl e \<Rightarrow> Err (WindowsIo e)
      | Inr s \<Rightarrow> map_err WindowsIo (so_bind so addr s))))"

text \<open>The exit status of a command: whether it is a success, and how it prints.\<close>

record exit_status =
  es_success :: bool
  es_text :: rstr

definition ensure_loopback_exempt ::
  "(rstr \<Rightarrow> rstr list \<Rightarrow> (exit_status, io_error) result) \<Rightarrow> (unit, windows_error) result" where
  "ensure_loopback_exempt run =
     (case run (lit ''CheckNetIsolation.exe'')
             [lit ''LoopbackExempt'', lit ''-a'', lit ''-n=Microsoft.MinecraftUWP_8wekyb3d8bbwe''] of
        Inl e \<Rightarrow> Err (WindowsIo e)
      | Inr status \<Rightarrow>
          if es_success status then Ok ()
          else Err (WindowsCommand (lit ''CheckNetIsolation exited with status '' @ es_text status)))"

text \<open>The stubs of the other targets.\<close>

definition stub_udp_port_bound :: "u16 \<Rightarrow> (bool, windows_error) result" where
  "stub_udp_port_bound port = Err WindowsUnsupported"

definition stub_owner_pid_of_port :: "u16 \<Rightarrow> (u32 option, windows_error) result" where
  "stub_owner_pid_of_port port = Err WindowsUnsupported"

definition stub_minecraft_process_running :: bool where
  "stub_minecraft_process_running = False"

definition stub_create_udp_socket :: "'s socket2 \<Rightarrow> socket_addr \<Rightarrow> ('s, windows_error) result" where
  "stub_create_udp_socket so addr =
     (case so_new so addr of
        Inl e \<Rightarrow> Err (WindowsIo e)
      | Inr s \<Rightarrow>
     (case so_set_reuse_address so True s of
        Inl e \<Rightarrow> Err (WindowsIo e)
      | Inr s \<Rightarrow>
     (case so_set_broadcast so True s of
        Inl e \<Rightarrow> Err (WindowsIo e)
      | Inr s \<Rightarrow> map_err WindowsIo (so_bind so addr s))))"

definition stub_ensure_loopback_exempt :: "(unit, windows_error) result" where
  "stub_ensure_loopback_exempt = Err WindowsUnsupported"

section \<open>Ports\<close>

text \<open>The documented form of \<open>dwLocalPort\<close>: the port in network byte order in the low half.\<close>

definition row_for :: "u16 \<Rightarrow> u32 \<Rightarrow> udp_owner_row \<Rightarrow> bool" where
  "row_for port pid row \<longleftrightarrow> ucast (dwLocalPort row) = u16_from_be port \<and> dwOwningPid row = pid"

lemma u16_from_be_involution [simp]: "u16_from_be (u16_from_be w) = w"
  by (rule bit_word_eqI) (auto simp: u16_from_be_def bit_simps)

lemma find_row_for:
  assumes "list_all2 (\<lambda>(port, pid) row. row_for port pid row) sockets rows"
  shows "find_row p rows = map_of sockets p"
  using assms by (induction rule: list_all2_induct) (auto simp: row_for_def split: prod.splits)

definition listed_ports :: "udp_table_api \<Rightarrow> u16 set" where
  "listed_ports api =
     (case snd (ut_fill api (ut_size api)) of None \<Rightarrow> {}
      | Some rows \<Rightarrow> (\<lambda>row. u16_from_be (ucast (dwLocalPort row))) ` set rows)"

text \<open>The second call succeeded, or there was no table to read.\<close>

definition table_answered :: "udp_table_api \<Rightarrow> bool" where
  "table_answered api \<longleftrightarrow>
     (if ut_size api = 0 then snd (ut_fill api 0) = None else fst (ut_fill api (ut_size api)) = 0)"

lemma find_row_None: "find_row p rows = None \<longleftrightarrow> p \<notin> (\<lambda>row. u16_from_be (ucast (dwLocalPort row))) ` set rows"
  by (induction rows) (auto simp: Let_def)

interpretation windows_probe: port_probe windows_udp_port_bound listed_ports table_answered
proof unfold_locales
  fix api p assume "table_answered api"
  then show "windows_udp_port_bound api p = Ok (p \<in> listed_ports api)"
    using find_row_None [of p]
    by (auto simp: windows_udp_port_bound_def owner_pid_of_port_def table_answered_def listed_ports_def Let_def
        split: prod.splits option.splits if_splits)
qed

text \<open>
  When the table is read, the owner reported for a port is the process of the first
  row with this port, and none is reported exactly when no row has it.
\<close>

lemma owner_pid_of_port_exact:
  assumes "ut_size api \<noteq> 0" and "ut_fill api (ut_size api) = (0, Some rows)"
    and "list_all2 (\<lambda>(port, pid) row. row_for port pid row) sockets rows"
  shows "owner_pid_of_port api p = Ok (map_of sockets p)
    \<and> windows_udp_port_bound api p = Ok (p \<in> fst ` set sockets)"
proof -
  have "owner_pid_of_port api p = Ok (map_of sockets p)"
    using assms find_row_for by (simp add: owner_pid_of_port_def)
  then show ?thesis by (auto simp: windows_udp_port_bound_def map_of_eq_None_iff)
qed

definition sample_api :: udp_table_api where
  "sample_api = \<lparr>ut_size = 100,
     ut_fill = (\<lambda>_. (0, Some [\<lparr>dwLocalPort = 13568, dwOwningPid = 4\<rparr>, \<lparr>dwLocalPort = 32541, dwOwningPid = 9\<rparr>])),
     last_os_error = \<lparr>io_kind = KOther, io_text = []\<rparr>\<rparr>"

text \<open>
  When the table grows between the two calls, the second call reports an insufficient
  buffer and writes nothing; the code goes on with the zeroed buffer and reports every port
  as free, also a bound one.
\<close>

lemma insufficient_buffer_reads_as_free:
  assumes "ut_size api \<noteq> 0" and "ut_fill api (ut_size api) = (ERROR_INSUFFICIENT_BUFFER, None)"
  shows "windows_udp_port_bound api p = Ok False"
  using assms by (simp add: windows_udp_port_bound_def owner_pid_of_port_def)

section \<open>Processes\<close>

lemma utf16_lossy_ascii_only: "\<forall>c\<in>set (utf16_lossy us). c < 128 \<Longrightarrow> utf16_lossy us = us"
  by (induction us rule: utf16_lossy.induct) (auto simp: REPLACEMENT_CHARACTER_def split: if_splits)

lemma exe_name_ascii: "\<forall>c\<in>set (lit ''Minecraft.Windows.exe''). 0 < c \<and> c < 128"
  by simp

lemma eq_ignore_ascii_case_utf16:
  assumes "\<forall>c\<in>set name. 0 < c \<and> c < 128"
  shows "eq_ignore_ascii_case (from_utf16_lossy us) name \<longleftrightarrow>
    map ascii_lower (map unat us) = map ascii_lower name"
proof
  assume "eq_ignore_ascii_case (from_utf16_lossy us) name"
  then have eq: "map ascii_lower (utf16_lossy (map unat us)) = map ascii_lower name"
    by (simp add: eq_ignore_ascii_case_def from_utf16_lossy_def)
  then have "\<forall>c\<in>set (utf16_lossy (map unat us)). c < 128"
    using map_ascii_lower_range [OF _ assms] by blast
  then have "utf16_lossy (map unat us) = map unat us" by (rule utf16_lossy_ascii_only)
  with eq show "map ascii_lower (map unat us) = map ascii_lower name" by (simp only:)
next
  assume eq: "map ascii_lower (map unat us) = map ascii_lower name"
  then have "\<forall>c\<in>set (map unat us). c < 128" using map_ascii_lower_range [OF _ assms] by blast
  with eq show "eq_ignore_ascii_case (from_utf16_lossy us) name"
    by (simp add: eq_ignore_ascii_case_def from_utf16_lossy_def utf16_lossy_ascii)
qed

text \<open>
  The game is detected exactly when the name of a process of the snapshot, up to its first
  zero, is the executable of the game in any ASCII case.
\<close>

lemma windows_process_running_iff:
  "windows_minecraft_process_running (Some entries) \<longleftrightarrow>
    (\<exists>exe\<in>set entries. map ascii_lower (map unat (takeWhile (\<lambda>c. c \<noteq> 0) exe))
      = map ascii_lower (lit ''Minecraft.Windows.exe''))"
proof (induction entries)
  case (Cons exe entries)
  let ?matches = "\<lambda>exe. map ascii_lower (map unat (takeWhile (\<lambda>c. c \<noteq> 0) exe))
      = map ascii_lower (lit ''Minecraft.Windows.exe'')"
  have "windows_minecraft_process_running (Some (exe # entries)) \<longleftrightarrow>
      ?matches exe \<or> windows_minecraft_process_running (Some entries)"
    unfolding windows_minecraft_process_running_def process_loop.simps Let_def option.case
      eq_ignore_ascii_case_utf16 [OF exe_name_ascii] by argo
  with Cons show ?case unfolding set_simps by blast
qed (simp add: windows_minecraft_process_running_def)

end
