(* ===== verification/Discovery_Setup.thy ===== *)
theory Discovery_Setup
  imports Discovery Discovery_Lifecycle Platform_Android Platform_Windows
begin

text \<open>
  The constructors of the discovery service (\<open>new\<close> and \<open>with_socket\<close> of
  \<open>crates/core/src/discovery.rs\<close>): a socket of the platform crate, made non-blocking, handed
  to tokio and to the LAN signaling of the NetherNet crate. The calls of tokio and NetherNet
  are fields of a record that is an argument.
\<close>

record lan_config =
  lan_broadcast_address :: "socket_addr option"
  lan_accept_any_recipient :: bool

record ('s, 't, 'c, 'l) lan_api =
  la_set_nonblocking :: "'s \<Rightarrow> ('s, io_error) result"
  la_from_std :: "'s \<Rightarrow> ('t, io_error) result"
  la_default :: "'c lan_config_scheme"
  la_with_socket :: "u64 \<Rightarrow> 't \<Rightarrow> 'c lan_config_scheme \<Rightarrow> ('l, nethernet_error) result"

record 'l discovery_service =
  ds_config :: discovery_config
  ds_advertised :: advertised_map
  ds_signaling :: 'l
  ds_life :: lifecycle

definition with_socket ::
  "('s, 't, 'c, 'l) lan_api \<Rightarrow> u64 \<Rightarrow> discovery_config \<Rightarrow> 's \<Rightarrow> ('l discovery_service, core_error) result" where
  "with_socket la network_id config socket =
     (case la_set_nonblocking la socket of
        Inl e \<Rightarrow> Err (Io e)
      | Inr socket \<Rightarrow>
     (case la_from_std la socket of
        Inl e \<Rightarrow> Err (Io e)
      | Inr socket \<Rightarrow>
     (case la_with_socket la network_id socket
             ((la_default la)\<lparr>lan_broadcast_address := None, lan_accept_any_recipient := True\<rparr>) of
        Inl e \<Rightarrow> Err (Nethernet e)
      | Inr signaling \<Rightarrow>
          Ok \<lparr>ds_config = config, ds_advertised = hm_new, ds_signaling = signaling, ds_life = lc_new\<rparr>)))"

text \<open>
  \<open>create_udp_socket\<close> is the function of the platform crate of the target, \<open>to_string\<close> the
  \<open>Display\<close> of its error.
\<close>

definition discovery_new ::
  "(socket_addr \<Rightarrow> ('s, 'e) result) \<Rightarrow> ('e \<Rightarrow> rstr) \<Rightarrow> ('s, 't, 'c, 'l) lan_api \<Rightarrow> u64 \<Rightarrow> discovery_config
     \<Rightarrow> ('l discovery_service, core_error) result" where
  "discovery_new create_udp_socket to_string la network_id config =
     (case create_udp_socket (bind_addr config) of
        Inl e \<Rightarrow> Err (Platform (to_string e))
      | Inr socket \<Rightarrow> with_socket la network_id config socket)"

definition discovery_signaling :: "'l discovery_service \<Rightarrow> 'l" where
  "discovery_signaling ds = ds_signaling ds"

text \<open>The signaling stack of a service never broadcasts by itself and takes every recipient.\<close>

lemma discovery_new_signaling:
  assumes "discovery_new create to_string la network_id config = Ok ds"
  shows "\<exists>socket lan. la_with_socket la network_id socket lan = Ok (discovery_signaling ds)
    \<and> lan_broadcast_address lan = None \<and> lan_accept_any_recipient lan"
proof -
  obtain socket where "la_with_socket la network_id socket
      ((la_default la)\<lparr>lan_broadcast_address := None, lan_accept_any_recipient := True\<rparr>) = Ok (ds_signaling ds)"
    using assms by (auto simp: discovery_new_def with_socket_def split: sum.splits)
  then show ?thesis unfolding discovery_signaling_def by (intro exI conjI) (assumption, simp_all)
qed

text \<open>A fresh service has a coherent, empty cache and no heartbeat.\<close>

lemma discovery_new_fresh:
  assumes "discovery_new create to_string la network_id config = Ok ds"
  shows "coherent nc (ds_advertised ds) \<and> broadcast_once h targets (ds_advertised ds) = []
    \<and> lc_running (ds_life ds) = 0 \<and> ds_config ds = config"
  using assms coherent_new [of nc]
  by (auto simp: discovery_new_def with_socket_def broadcast_once_def hm_values_def hm_iter_def hm_new_def
      lc_new_def split: sum.splits)

end
