(* ===== verification/Net.thy ===== *)
theory Net
  imports Core_Types
begin

text \<open>
  The rendezvous wire protocol (\<open>crates/core/src/net.rs\<close>): the two message types, reading
  and writing one frame (a four byte little-endian length and a JSON payload), the loop
  that reads a connection to its end, and the keepalive settings.
  JSON encoding and decoding belong to the \<open>serde_json\<close> crate: \<open>to_vec\<close> and \<open>from_slice\<close>
  are arguments of the definitions.
\<close>

section \<open>Messages\<close>

datatype client_message =
  RegisterHost advertised_server
| UnregisterHost u64
| ListHosts
| ConnectRequest u64 u64 \<comment> \<open>target sender id, joiner network id\<close>
| ClientSignal u64 u64 u64 rstr \<comment> \<open>target sender id, connection id, joiner network id, data\<close>
| Ping
| UpdateHost advertised_server

datatype server_message =
  Registered u64
| HostList "advertised_server list"
| IncomingJoin u64 u64 \<comment> \<open>joiner network id, session id\<close>
| JoinAccepted u64
| ServerSignal u64 u64 rstr \<comment> \<open>connection id, joiner network id, data\<close>
| Pong
| ErrorMessage rstr

definition MAX_FRAME_BYTES :: usize where
  "MAX_FRAME_BYTES = 512 * 1024"

section \<open>Byte streams\<close>

text \<open>
  A reader is the bytes the peer delivers before the stream ends and how it ends: by end
  of file, or by an I/O error. \<open>AsyncReadExt::read_exact\<close> either fills the buffer or fails,
  with \<open>UnexpectedEof\<close> where the stream ended.
\<close>

record reader =
  rbuf :: "u8 list"
  rend :: "io_error option"

definition early_eof :: io_error where
  "early_eof = \<lparr>io_kind = KUnexpectedEof, io_text = lit ''early eof''\<rparr>"

definition read_exact :: "nat \<Rightarrow> reader \<Rightarrow> (u8 list, io_error) result \<times> reader" where
  "read_exact n r =
     (if n \<le> length (rbuf r) then (Ok (take n (rbuf r)), r\<lparr>rbuf := drop n (rbuf r)\<rparr>)
      else (Err (case rend r of None \<Rightarrow> early_eof | Some e \<Rightarrow> e), r\<lparr>rbuf := []\<rparr>))"

text \<open>
  A writer is the bytes the transport took so far, how many more it takes before it fails
  (and the error), and what flushing it returns.
\<close>

record writer =
  wbuf :: "u8 list"
  wlimit :: "(nat \<times> io_error) option"
  wflush :: "io_error option"

definition write_all :: "u8 list \<Rightarrow> writer \<Rightarrow> (unit, io_error) result \<times> writer" where
  "write_all bs w =
     (case wlimit w of
        None \<Rightarrow> (Ok (), w\<lparr>wbuf := wbuf w @ bs\<rparr>)
      | Some (n, e) \<Rightarrow>
          if length bs \<le> n
          then (Ok (), w\<lparr>wbuf := wbuf w @ bs, wlimit := Some (n - length bs, e)\<rparr>)
          else (Err e, w\<lparr>wbuf := wbuf w @ take n bs, wlimit := Some (0, e)\<rparr>))"

definition flush :: "writer \<Rightarrow> (unit, io_error) result" where
  "flush w = (case wflush w of None \<Rightarrow> Ok () | Some e \<Rightarrow> Err e)"

section \<open>Length prefix\<close>

definition u32_to_le_bytes :: "u32 \<Rightarrow> u8 list" where
  "u32_to_le_bytes w =
     [of_nat (unat w), of_nat (unat w div 2 ^ 8), of_nat (unat w div 2 ^ 16),
      of_nat (unat w div 2 ^ 24)]"

definition u32_from_le_bytes :: "u8 list \<Rightarrow> u32" where
  "u32_from_le_bytes bs = of_nat (foldr (\<lambda>b n. unat b + 2 ^ 8 * n) bs 0)"

definition frame_bytes :: "u8 list \<Rightarrow> u8 list" where
  "frame_bytes payload = u32_to_le_bytes (of_nat (length payload)) @ payload"

section \<open>Reading and writing messages\<close>

definition read_frame :: "reader \<Rightarrow> (u8 list option, core_error) result \<times> reader" where
  "read_frame r =
     (case read_exact 4 r of
        (Inl e, r1) \<Rightarrow> (if io_kind e = KUnexpectedEof then Ok None else Err (Io e), r1)
      | (Inr len_buf, r1) \<Rightarrow>
          (let len = unat (u32_from_le_bytes len_buf)
           in if len > MAX_FRAME_BYTES then (Err (FrameTooLarge len), r1)
              else case read_exact len r1 of
                     (Inl e, r2) \<Rightarrow> (Err (Io e), r2)
                   | (Inr buf, r2) \<Rightarrow> (Ok (Some buf), r2)))"

definition read_message ::
  "(u8 list \<Rightarrow> ('a, rstr) result) \<Rightarrow> reader \<Rightarrow> ('a option, core_error) result \<times> reader" where
  "read_message from_slice r =
     (case read_frame r of
        (Inl e, r') \<Rightarrow> (Err e, r')
      | (Inr None, r') \<Rightarrow> (Ok None, r')
      | (Inr (Some buf), r') \<Rightarrow>
          (case from_slice buf of
             Inl e \<Rightarrow> (Err (Other (lit ''bad message json: '' @ e)), r')
           | Inr msg \<Rightarrow> (Ok (Some msg), r')))"

definition write_message ::
  "('a \<Rightarrow> (u8 list, rstr) result) \<Rightarrow> 'a \<Rightarrow> writer \<Rightarrow> (unit, core_error) result \<times> writer" where
  "write_message to_vec msg w =
     (case to_vec msg of
        Inl e \<Rightarrow> (Err (Other (lit ''json encode failed: '' @ e)), w)
      | Inr payload \<Rightarrow>
          (case write_all (frame_bytes payload) w of
             (Inl e, w') \<Rightarrow> (Err (Io e), w')
           | (Inr _, w') \<Rightarrow> (map_err Io (flush w'), w')))"

text \<open>
  The writer task of a connection sends message after message and stops at the first
  failure; the reading side of a connection reads until end of file or an error. Every
  message read takes at least the four bytes of its prefix, so the loop ends.
\<close>

fun write_messages ::
  "('a \<Rightarrow> (u8 list, rstr) result) \<Rightarrow> 'a list \<Rightarrow> writer \<Rightarrow> (unit, core_error) result \<times> writer" where
  "write_messages to_vec [] w = (Ok (), w)"
| "write_messages to_vec (m # ms) w =
     (case write_message to_vec m w of
        (Inl e, w') \<Rightarrow> (Err e, w')
      | (Inr _, w') \<Rightarrow> write_messages to_vec ms w')"

lemma read_frame_shrinks:
  "read_frame r = (Ok (Some p), r') \<Longrightarrow> length (rbuf r) = 4 + length p + length (rbuf r')"
  by (auto simp: read_frame_def read_exact_def Let_def split: if_splits)

lemma read_message_shrinks:
  "read_message from_slice r = (Ok (Some m), r') \<Longrightarrow> length (rbuf r') < length (rbuf r)"
  by (fastforce simp: read_message_def dest: read_frame_shrinks
      split: prod.splits sum.splits option.splits)

function read_messages ::
  "(u8 list \<Rightarrow> ('a, rstr) result) \<Rightarrow> reader \<Rightarrow> 'a list \<times> core_error option" where
  "read_messages from_slice r =
     (case read_message from_slice r of
        (Inl e, r') \<Rightarrow> ([], Some e)
      | (Inr None, r') \<Rightarrow> ([], None)
      | (Inr (Some m), r') \<Rightarrow>
          (let (ms, e) = read_messages from_slice r' in (m # ms, e)))"
  by pat_completeness auto
termination
  by (relation "measure (\<lambda>(_, r). length (rbuf r))") (auto simp: read_message_shrinks [OF sym])

declare read_messages.simps [simp del]

section \<open>Keepalive\<close>

record tcp_keepalive =
  ka_time :: millis
  ka_interval :: millis
  ka_retries :: "nat option"

definition keepalive_settings :: "bool \<Rightarrow> tcp_keepalive" where
  "keepalive_settings target_windows =
     \<lparr>ka_time = 30000, ka_interval = 10000,
      ka_retries = (if target_windows then None else Some 3)\<rparr>"

definition set_tcp_keepalive ::
  "bool \<Rightarrow> (tcp_keepalive \<Rightarrow> (unit, io_error) result) \<Rightarrow> (unit, core_error) result" where
  "set_tcp_keepalive target_windows setsockopt =
     map_err Io (setsockopt (keepalive_settings target_windows))"

section \<open>Facts\<close>

named_theorems net_simps "evaluation of the frame reader"

lemma read_exact_ok [net_simps]:
  "n \<le> length (rbuf r) \<Longrightarrow>
    read_exact n r = (Ok (take n (rbuf r)), r\<lparr>rbuf := drop n (rbuf r)\<rparr>)"
  by (simp add: read_exact_def)

lemma read_exact_short [net_simps]:
  "length (rbuf r) < n \<Longrightarrow>
    read_exact n r = (Err (case rend r of None \<Rightarrow> early_eof | Some e \<Rightarrow> e), r\<lparr>rbuf := []\<rparr>)"
  by (simp add: read_exact_def)

lemma length_u32_to_le_bytes [simp]: "length (u32_to_le_bytes w) = 4"
  by (simp add: u32_to_le_bytes_def)

lemma length_frame_bytes [simp]: "length (frame_bytes p) = 4 + length p"
  by (simp add: frame_bytes_def)

lemma digits_base_256:
  assumes "n < 2 ^ 32"
  shows "n mod 256 + 256 * (n div 256 mod 256 + 256 * (n div 65536 mod 256
     + 256 * (n div 16777216))) = (n::nat)"
proof -
  have d: "n div 16777216 = n div 65536 div 256" and e: "n div 65536 = n div 256 div 256"
    by (simp_all add: div_mult2_eq [symmetric])
  have c: "n div 65536 mod 256 + 256 * (n div 65536 div 256) = n div 65536"
    by (rule mod_mult_div_eq)
  have b: "n div 256 mod 256 + 256 * (n div 256 div 256) = n div 256"
    by (rule mod_mult_div_eq)
  show ?thesis unfolding d c unfolding e b by (rule mod_mult_div_eq)
qed

lemma u32_le_roundtrip [simp]: "u32_from_le_bytes (u32_to_le_bytes w) = w"
proof -
  have w: "unat w < 2 ^ 32" using unsigned_less [of w, where ?'a = nat] by simp
  then have "unat w div 16777216 mod 256 = unat w div 16777216"
    by (simp add: less_mult_imp_div_less)
  with digits_base_256 [OF w]
  have "foldr (\<lambda>b n. unat b + 2 ^ 8 * n) (u32_to_le_bytes w) 0 = unat w"
    by (simp add: u32_to_le_bytes_def unat_of_nat del: of_nat_unat)
  then show ?thesis by (simp add: u32_from_le_bytes_def)
qed

lemma MAX_lt: "MAX_FRAME_BYTES < 2 ^ 32"
  by (simp add: MAX_FRAME_BYTES_def)

lemma unat_frame_length [net_simps]:
  "unat (of_nat (length p) :: u32) = length p mod 2 ^ 32"
  by (simp add: unat_of_nat)

lemma read_frame_header:
  assumes "rbuf r = u32_to_le_bytes w @ body"
  shows "read_frame r =
    (if unat w > MAX_FRAME_BYTES then (Err (FrameTooLarge (unat w)), r\<lparr>rbuf := body\<rparr>)
     else case read_exact (unat w) (r\<lparr>rbuf := body\<rparr>) of
            (Inl e, r2) \<Rightarrow> (Err (Io e), r2)
          | (Inr buf, r2) \<Rightarrow> (Ok (Some buf), r2))"
  using assms by (simp add: read_frame_def read_exact_ok Let_def)

lemma read_frame_frame [net_simps]:
  assumes "length p \<le> MAX_FRAME_BYTES" and "rbuf r = frame_bytes p @ rest"
  shows "read_frame r = (Ok (Some p), r\<lparr>rbuf := rest\<rparr>)"
proof -
  have "unat (of_nat (length p) :: u32) = length p"
    using assms(1) MAX_lt by (simp add: unat_of_nat)
  then show ?thesis using assms read_frame_header [of r "of_nat (length p)" "p @ rest"]
    by (simp add: frame_bytes_def read_exact_ok)
qed

lemma read_frame_oversized [net_simps]:
  assumes "MAX_FRAME_BYTES < length p" and "length p < 2 ^ 32" and "rbuf r = frame_bytes p @ rest"
  shows "read_frame r = (Err (FrameTooLarge (length p)), r\<lparr>rbuf := p @ rest\<rparr>)"
proof -
  have "unat (of_nat (length p) :: u32) = length p"
    using assms(2) by (simp add: unat_of_nat)
  then show ?thesis using assms read_frame_header [of r "of_nat (length p)" "p @ rest"]
    by (simp add: frame_bytes_def)
qed

lemma read_frame_short_header:
  assumes "length (rbuf r) < 4"
  shows "read_frame r = ((case rend r of None \<Rightarrow> Ok None
     | Some e \<Rightarrow> if io_kind e = KUnexpectedEof then Ok None else Err (Io e)), r\<lparr>rbuf := []\<rparr>)"
  using assms by (simp add: read_frame_def read_exact_def early_eof_def split: option.splits)

lemma read_frame_short_body:
  assumes "length p \<le> MAX_FRAME_BYTES" and "rbuf r = take n (frame_bytes p)"
    and "4 \<le> n" and "n < length (frame_bytes p)"
  shows "read_frame r = (Err (Io (case rend r of None \<Rightarrow> early_eof | Some e \<Rightarrow> e)), r\<lparr>rbuf := []\<rparr>)"
proof -
  have "unat (of_nat (length p) :: u32) = length p"
    using assms(1) MAX_lt by (simp add: unat_of_nat)
  moreover have "rbuf r = u32_to_le_bytes (of_nat (length p)) @ take (n - 4) p"
    using assms(2,3) by (simp add: frame_bytes_def)
  ultimately show ?thesis
    using assms read_frame_header [of r "of_nat (length p)" "take (n - 4) p"]
    by (simp add: read_exact_short)
qed

text \<open>
  Self-delimiting encodings: decoding what was encoded returns the value and exactly the
  bytes that follow. The locale derives that a stream of encodings can be cut in one way
  only; the frames of this protocol are an instance.
\<close>

locale prefix_codec =
  fixes enc :: "'p \<Rightarrow> 'b list"
    and dec :: "'b list \<Rightarrow> ('p \<times> 'b list) option"
    and valid :: "'p \<Rightarrow> bool"
  assumes dec_enc: "valid p \<Longrightarrow> dec (enc p @ rest) = Some (p, rest)"
    and dec_nil: "dec [] = None"
begin

lemma enc_nonempty: "valid p \<Longrightarrow> enc p \<noteq> []"
proof
  assume "valid p" and "enc p = []"
  with dec_enc [of p "[]"] have "dec [] = Some (p, [])" by simp
  with dec_nil show False by simp
qed

lemma enc_split_unique:
  assumes "valid p" and "valid q" and eq: "enc p @ xs = enc q @ ys"
  shows "p = q \<and> xs = ys"
proof -
  have "Some (p, xs) = dec (enc q @ ys)" using dec_enc [OF assms(1), of xs] eq by simp
  also have "\<dots> = Some (q, ys)" by (rule dec_enc [OF assms(2)])
  finally show ?thesis by simp
qed

lemma concat_unique:
  "\<forall>p\<in>set ps. valid p \<Longrightarrow> \<forall>q\<in>set qs. valid q \<Longrightarrow>
    concat (map enc ps) = concat (map enc qs) \<Longrightarrow> ps = qs"
proof (induction ps arbitrary: qs)
  case Nil
  show ?case
  proof (cases qs)
    case (Cons q qs')
    then have "enc q = []" and "valid q" using Nil by simp_all
    then show ?thesis using enc_nonempty by simp
  qed simp
next
  case (Cons p ps)
  have "enc p \<noteq> []" using Cons.prems enc_nonempty by simp
  then obtain q qs' where qs: "qs = q # qs'"
    using Cons.prems by (cases qs) simp_all
  have v: "valid p" "valid q" and "enc p @ concat (map enc ps) = enc q @ concat (map enc qs')"
    using Cons.prems qs by simp_all
  then have e: "p = q" "concat (map enc ps) = concat (map enc qs')"
    using enc_split_unique by blast+
  then have "ps = qs'" using Cons.IH [of qs'] Cons.prems qs by simp
  then show ?case using e qs by simp
qed

end

definition split_frame :: "u8 list \<Rightarrow> (u8 list \<times> u8 list) option" where
  "split_frame bs =
     (case read_frame \<lparr>rbuf = bs, rend = None\<rparr> of
        (Inr (Some p), r) \<Rightarrow> Some (p, rbuf r)
      | _ \<Rightarrow> None)"

interpretation frame: prefix_codec frame_bytes split_frame "\<lambda>p. length p \<le> MAX_FRAME_BYTES"
proof unfold_locales
  fix p rest :: "u8 list"
  assume "length p \<le> MAX_FRAME_BYTES"
  then show "split_frame (frame_bytes p @ rest) = Some (p, rest)"
    by (simp add: split_frame_def read_frame_frame)
qed (simp add: split_frame_def read_frame_short_header)

section \<open>Whole connections\<close>

text \<open>
  \<open>encodable\<close> is what the code relies on from \<open>serde_json\<close> for one message: it encodes, its
  encoding decodes to the message itself, and it fits a frame.
\<close>

definition encodable :: "('a \<Rightarrow> (u8 list, rstr) result) \<Rightarrow> (u8 list \<Rightarrow> ('a, rstr) result) \<Rightarrow> 'a \<Rightarrow> bool" where
  "encodable to_vec from_slice m \<longleftrightarrow>
     (case to_vec m of
        Inl _ \<Rightarrow> False
      | Inr p \<Rightarrow> from_slice p = Ok m \<and> length p \<le> MAX_FRAME_BYTES)"

definition healthy :: "writer \<Rightarrow> bool" where
  "healthy w \<longleftrightarrow> wlimit w = None \<and> wflush w = None"

definition frames :: "('a \<Rightarrow> (u8 list, rstr) result) \<Rightarrow> 'a list \<Rightarrow> u8 list" where
  "frames to_vec ms = concat (map (\<lambda>m. case to_vec m of Inl _ \<Rightarrow> [] | Inr p \<Rightarrow> frame_bytes p) ms)"

lemma encodableE:
  assumes "encodable to_vec from_slice m"
  obtains p where "to_vec m = Ok p" "from_slice p = Ok m" "length p \<le> MAX_FRAME_BYTES"
  using assms by (auto simp: encodable_def split: sum.splits)

lemma frames_simps [simp]:
  "frames to_vec [] = []"
  "to_vec m = Ok p \<Longrightarrow> frames to_vec (m # ms) = frame_bytes p @ frames to_vec ms"
  by (simp_all add: frames_def)

lemma write_message_healthy:
  assumes "healthy w" and "to_vec m = Ok p"
  shows "write_message to_vec m w = (Ok (), w\<lparr>wbuf := wbuf w @ frame_bytes p\<rparr>)"
  using assms by (simp add: write_message_def write_all_def flush_def healthy_def)

lemma write_messages_healthy:
  "healthy w \<Longrightarrow> \<forall>m\<in>set ms. is_ok (to_vec m) \<Longrightarrow>
    write_messages to_vec ms w = (Ok (), w\<lparr>wbuf := wbuf w @ frames to_vec ms\<rparr>)"
proof (induction ms arbitrary: w)
  case Nil
  then show ?case by simp
next
  case (Cons m ms)
  then obtain p where p: "to_vec m = Ok p" by (auto simp: is_ok_iff)
  have "healthy (w\<lparr>wbuf := wbuf w @ frame_bytes p\<rparr>)"
    using Cons.prems(1) by (simp add: healthy_def)
  then show ?case using Cons by (simp add: p write_message_healthy)
qed

lemma read_message_frame:
  assumes "to_vec m = Ok p" "from_slice p = Ok m" "length p \<le> MAX_FRAME_BYTES"
    and "rbuf r = frame_bytes p @ rest"
  shows "read_message from_slice r = (Ok (Some m), r\<lparr>rbuf := rest\<rparr>)"
  using assms by (simp add: read_message_def read_frame_frame)

lemma read_messages_frames:
  "\<forall>m\<in>set ms. encodable to_vec from_slice m \<Longrightarrow>
    read_messages from_slice \<lparr>rbuf = frames to_vec ms @ rest, rend = e\<rparr> =
      (let (ms', x) = read_messages from_slice \<lparr>rbuf = rest, rend = e\<rparr> in (ms @ ms', x))"
proof (induction ms)
  case Nil
  then show ?case by simp
next
  case (Cons m ms)
  then obtain p where p: "to_vec m = Ok p" "from_slice p = Ok m" "length p \<le> MAX_FRAME_BYTES"
    by (auto elim: encodableE)
  let ?r = "\<lparr>rbuf = frame_bytes p @ frames to_vec ms @ rest, rend = e\<rparr>"
  have "read_message from_slice ?r = (Ok (Some m), \<lparr>rbuf = frames to_vec ms @ rest, rend = e\<rparr>)"
    using read_message_frame [of to_vec m p from_slice ?r] p by simp
  then show ?case
    using Cons p by (simp add: read_messages.simps [of from_slice ?r] split: prod.splits)
qed

lemma read_messages_eof:
  "read_messages from_slice \<lparr>rbuf = [], rend = None\<rparr> = ([], None)"
  by (simp add: read_messages.simps read_message_def read_frame_short_header)

text \<open>
  C7: whatever sequence of messages one side writes to a working connection, the other
  side reads exactly this sequence, in order, and then a clean end of file, provided
  \<open>serde_json\<close> decodes what it encodes and no message exceeds the frame limit.
\<close>

theorem connection_roundtrip:
  assumes "\<forall>m\<in>set ms. encodable to_vec from_slice m" and "healthy w" and "wbuf w = []"
  shows "fst (write_messages to_vec ms w) = Ok () \<and>
    read_messages from_slice \<lparr>rbuf = wbuf (snd (write_messages to_vec ms w)), rend = None\<rparr> = (ms, None)"
proof -
  have "\<forall>m\<in>set ms. is_ok (to_vec m)"
    using assms(1) by (fastforce elim: encodableE)
  with assms(2,3) have "write_messages to_vec ms w = (Ok (), w\<lparr>wbuf := frames to_vec ms\<rparr>)"
    by (simp add: write_messages_healthy)
  then show ?thesis
    using read_messages_frames [OF assms(1), of "[]" None] by (simp add: read_messages_eof)
qed

theorem connection_roundtrip_witness:
  "fst (write_messages Ok [[1, 2], [], [3]] \<lparr>wbuf = [], wlimit = None, wflush = None\<rparr>) = Ok () \<and>
    read_messages Ok \<lparr>rbuf = wbuf (snd (write_messages Ok [[1, 2], [], [3]]
      \<lparr>wbuf = [], wlimit = None, wflush = None\<rparr>)), rend = None\<rparr> = ([[1, 2], [], [3 :: u8]], None)"
  by (rule connection_roundtrip) (simp_all add: encodable_def healthy_def MAX_FRAME_BYTES_def)

lemma read_messages_cut_frame:
  assumes "length p \<le> MAX_FRAME_BYTES" and "n < length (frame_bytes p)"
  shows "fst (read_messages from_slice \<lparr>rbuf = take n (frame_bytes p), rend = e\<rparr>) = []"
proof (cases "n < 4")
  case True
  then have "length (rbuf \<lparr>rbuf = take n (frame_bytes p), rend = e\<rparr>) < 4" by simp
  then show ?thesis
    by (auto simp: read_messages.simps [of from_slice "\<lparr>rbuf = take n (frame_bytes p), rend = e\<rparr>"]
        read_message_def read_frame_short_header split: option.splits)
next
  case False
  with assms show ?thesis
    by (simp add: read_messages.simps [of from_slice "\<lparr>rbuf = take n (frame_bytes p), rend = e\<rparr>"]
        read_message_def read_frame_short_body)
qed

lemma read_messages_take_frames:
  assumes "\<forall>m\<in>set ms. encodable to_vec from_slice m"
  shows "\<exists>k. fst (read_messages from_slice \<lparr>rbuf = take n (frames to_vec ms), rend = e\<rparr>) = take k ms"
  using assms
proof (induction ms arbitrary: n)
  case Nil
  show ?case by (auto simp: read_messages.simps [of from_slice "\<lparr>rbuf = [], rend = e\<rparr>"]
      read_message_def read_frame_short_header split: option.splits)
next
  case (Cons m ms)
  then obtain p where p: "to_vec m = Ok p" "from_slice p = Ok m" "length p \<le> MAX_FRAME_BYTES"
    by (auto elim: encodableE)
  let ?n = "length (frame_bytes p)"
  let ?r = "\<lparr>rbuf = take n (frames to_vec (m # ms)), rend = e\<rparr>"
  show ?case
  proof (cases "?n \<le> n")
    case True
    let ?r' = "\<lparr>rbuf = take (n - ?n) (frames to_vec ms), rend = e\<rparr>"
    have "rbuf ?r = frame_bytes p @ rbuf ?r'" using True p by simp
    from read_message_frame [of to_vec m p from_slice ?r, OF p this]
    have "read_message from_slice ?r = (Ok (Some m), ?r')" by simp
    moreover obtain k where "fst (read_messages from_slice ?r') = take k ms"
      using Cons by fastforce
    ultimately have "fst (read_messages from_slice ?r) = take (Suc k) (m # ms)"
      by (simp add: read_messages.simps [of from_slice ?r] case_prod_beta)
    then show ?thesis by blast
  next
    case False
    then have "take n (frames to_vec (m # ms)) = take n (frame_bytes p)" using p by simp
    then have "fst (read_messages from_slice ?r) = []"
      using read_messages_cut_frame [OF p(3), of n] False by (simp del: length_frame_bytes)
    then show ?thesis by (metis take0)
  qed
qed

text \<open>
  C18: a connection that is cut anywhere, in the middle of a frame or of a length prefix,
  yields a prefix of the messages that were sent: no message is invented, reordered or
  altered.
\<close>

theorem truncated_stream_prefix:
  assumes "\<forall>m\<in>set ms. encodable to_vec from_slice m"
  shows "\<exists>k. fst (read_messages from_slice \<lparr>rbuf = take n (frames to_vec ms), rend = e\<rparr>) = take k ms"
  using assms by (rule read_messages_take_frames)

theorem truncated_stream_prefix_witness:
  "\<exists>k. fst (read_messages Ok \<lparr>rbuf = take 7 (frames Ok [[1], [2 :: u8]]), rend = None\<rparr>) = take k [[1], [2]]"
  by (rule truncated_stream_prefix) (simp add: encodable_def MAX_FRAME_BYTES_def)

text \<open>
  C35: a message larger than the frame limit is written without complaint and refused by
  the reader, which reports its size.
\<close>

theorem oversized_frame_rejected:
  assumes "to_vec m = Ok p" and "MAX_FRAME_BYTES < length p" and "length p < 2 ^ 32"
    and "healthy w" and "wbuf w = []"
  shows "fst (write_message to_vec m w) = Ok () \<and>
    fst (read_message from_slice \<lparr>rbuf = wbuf (snd (write_message to_vec m w)), rend = e\<rparr>)
      = Err (FrameTooLarge (length p))"
  using assms read_frame_oversized [OF assms(2,3), of "\<lparr>rbuf = frame_bytes p, rend = e\<rparr>" "[]"]
  by (simp add: write_message_healthy [of w to_vec m p] read_message_def)

theorem oversized_frame_rejected_witness:
  "fst (write_message Ok (replicate 600000 (0 :: u8)) \<lparr>wbuf = [], wlimit = None, wflush = None\<rparr>) = Ok () \<and>
    fst (read_message (Ok :: u8 list \<Rightarrow> (u8 list, rstr) result)
      \<lparr>rbuf = wbuf (snd (write_message Ok (replicate 600000 (0 :: u8)) \<lparr>wbuf = [], wlimit = None, wflush = None\<rparr>)),
       rend = None\<rparr>) = Err (FrameTooLarge (length (replicate 600000 (0 :: u8))))"
  by (rule oversized_frame_rejected) (simp_all only: healthy_def MAX_FRAME_BYTES_def, simp_all)

text \<open>
  Whatever the peer sends, reading one message takes at most the prefix and one frame
  of the maximal size off the stream: an oversized length is refused before its payload is
  read.
\<close>

lemma read_consumption_bound:
  "length (rbuf r) \<le> length (rbuf (snd (read_message from_slice r))) + 4 + MAX_FRAME_BYTES"
proof -
  have "length (rbuf r) \<le> length (rbuf (snd (read_frame r))) + 4 + MAX_FRAME_BYTES"
    by (auto simp: read_frame_def read_exact_def Let_def split: if_splits)
  moreover have "snd (read_message from_slice r) = snd (read_frame r)"
    by (auto simp: read_message_def split: prod.splits sum.splits option.splits)
  ultimately show ?thesis by simp
qed

text \<open>
  A connection that breaks inside the length prefix (one to three bytes arrived) is
  reported as the clean end of file \<open>Ok(None)\<close>, exactly as if nothing had arrived.
\<close>

lemma short_header_is_eof:
  assumes "length bs < 4"
  shows "read_message from_slice \<lparr>rbuf = bs, rend = None\<rparr> = (Ok None, \<lparr>rbuf = [], rend = None\<rparr>)"
  using assms by (simp add: read_message_def read_frame_short_header)

text \<open>
  The bytes of a connection can be cut into frames in one way only: two sequences of
  payloads with the same bytes on the wire are equal.
\<close>

lemma frame_streams_unique:
  assumes "\<forall>p\<in>set ps. length p \<le> MAX_FRAME_BYTES" and "\<forall>q\<in>set qs. length q \<le> MAX_FRAME_BYTES"
    and "concat (map frame_bytes ps) = concat (map frame_bytes qs)"
  shows "ps = qs"
  using assms by (rule frame.concat_unique)

text \<open>
  The length prefix carries the payload length modulo \<open>2 ^ 32\<close>: the cast to \<open>u32\<close> is
  not checked.
\<close>

lemma length_prefix_wraps:
  "unat (u32_from_le_bytes (take 4 (frame_bytes p))) = length p mod 2 ^ 32"
  by (simp add: frame_bytes_def unat_of_nat)

text \<open>
  Outside Windows the keepalive settings declare a silent peer dead after at most one
  minute: the idle time and all probes together.
\<close>

definition keepalive_detection :: "tcp_keepalive \<Rightarrow> millis option" where
  "keepalive_detection k = map_option (\<lambda>n. ka_time k + n * ka_interval k) (ka_retries k)"

lemma keepalive_within_a_minute:
  "keepalive_detection (keepalive_settings False) = Some 60000"
  by (simp add: keepalive_detection_def keepalive_settings_def)

end
