(* ===== verification/Client.thy ===== *)
theory Client
  imports Net Discovery Rust_Channel Platform_Interface
begin

text \<open>
  The node client (\<open>examples/client/client.rs\<close>) that runs beside the game: it watches what
  the game does with UDP 7551, registers a hosted world with the rendezvous server or
  advertises the hosts of the server into the game, and forwards signaling both ways.
  Write halves and channels of the connections are shared between tasks: they live in
  stores indexed by a connection number, and \<open>server\<close>, \<open>server_writer\<close>, \<open>server_incoming\<close>
  and \<open>reader_task\<close> hold such numbers. Points in time are milliseconds of a monotonic clock.
\<close>

section \<open>Constants and addresses\<close>

definition DEFAULT_SERVER_ADDR :: rstr where
  "DEFAULT_SERVER_ADDR = lit ''127.0.0.1:25000''"

definition PING_INTERVAL :: millis where
  "PING_INTERVAL = 15000"

definition LOOP_INTERVAL :: millis where
  "LOOP_INTERVAL = 2000"

text \<open>How long the probe of the game waits for an answer.\<close>

definition PROBE_WAIT :: millis where
  "PROBE_WAIT = 250"

definition LIVENESS_TIMEOUT :: millis where
  "LIVENESS_TIMEOUT = 45000"

definition LIST_TIMEOUT :: millis where
  "LIST_TIMEOUT = 5000"

text \<open>\<open>Iterator::position\<close>.\<close>

fun iter_position :: "('a \<Rightarrow> bool) \<Rightarrow> 'a list \<Rightarrow> nat option" where
  "iter_position P [] = None"
| "iter_position P (x # xs) = (if P x then Some 0 else map_option Suc (iter_position P xs))"

definition resolve_server_addr :: "rstr list \<Rightarrow> rstr option \<Rightarrow> rstr" where
  "resolve_server_addr args env_var =
     (case Option.bind (iter_position (\<lambda>a. a = lit ''--server'') args) (\<lambda>pos. iter_nth (pos + 1) args) of
        Some addr \<Rightarrow> addr
      | None \<Rightarrow>
     (case List.find (\<lambda>a. \<not> starts_with a (lit ''-'')) (drop 1 args) of
        Some addr \<Rightarrow> addr
      | None \<Rightarrow>
     (case env_var of
        Some addr \<Rightarrow> if addr \<noteq> [] then addr else DEFAULT_SERVER_ADDR
      | None \<Rightarrow> DEFAULT_SERVER_ADDR)))"

section \<open>State\<close>

datatype game_state = GameClosed | Browsing | Hosting

text \<open>Where the main loop stands between two critical operations.\<close>

datatype client_pc = AtTop | AtGame | AtFetch millis | AtPing

record client_state =
  cl_conns :: "nat \<Rightarrow> writer" \<comment> \<open>the write half of every connection made so far\<close>
  cl_chans :: "nat \<Rightarrow> server_message channel" \<comment> \<open>from the reader task of a connection to the main loop\<close>
  cl_next :: nat
  cl_readers :: "nat list" \<comment> \<open>connections whose reader task runs and was not aborted\<close>
  cl_aborted :: "nat list" \<comment> \<open>connections whose reader task was aborted and has not stopped yet\<close>
  cl_server :: "nat option"
  cl_server_writer :: "nat option"
  cl_incoming :: "nat option"
  cl_reader_task :: "nat option"
  cl_reader_alive :: bool
  cl_last_seen :: millis
  cl_last_ping :: millis
  cl_hosting_registered :: bool
  cl_registered_ad :: "server_advertisement option"
  cl_advertised_count :: usize
  cl_join_conns :: "(u64, u64 \<times> u64) hashmap"
  cl_local_game_id :: "u64 option"
  cl_adverts :: advertised_map
  cl_pc :: client_pc

text \<open>
  What the client calls outside the repository: the JSON encoder, the packet codec of the
  NetherNet crate, and its \<open>MessagePacket::new\<close> and \<open>discovery::marshal\<close> (recipient, data,
  sender); and the network id it drew at its start.
\<close>

record 'p client_env =
  ce_me :: u64
  ce_to_vec :: "client_message \<Rightarrow> (u8 list, rstr) result"
  ce_codec :: "'p nethernet_codec"
  ce_marshal_message :: "u64 \<Rightarrow> rstr \<Rightarrow> u64 \<Rightarrow> (u8 list, nethernet_error) result"

definition client_start :: "millis \<Rightarrow> client_state" where
  "client_start now =
     \<lparr>cl_conns = (\<lambda>_. \<lparr>wbuf = [], wlimit = None, wflush = None\<rparr>), cl_chans = (\<lambda>_. chan_new), cl_next = 0,
      cl_readers = [], cl_aborted = [], cl_server = None, cl_server_writer = None, cl_incoming = None, cl_reader_task = None,
      cl_reader_alive = False, cl_last_seen = now, cl_last_ping = now, cl_hosting_registered = False,
      cl_registered_ad = None, cl_advertised_count = 0, cl_join_conns = hm_new, cl_local_game_id = None,
      cl_adverts = hm_new, cl_pc = AtTop\<rparr>"

section \<open>Writing to the server\<close>

definition write_on :: "'p client_env \<Rightarrow> nat \<Rightarrow> client_message \<Rightarrow> client_state \<Rightarrow> bool \<times> client_state" where
  "write_on env c msg s =
     (let (r, w) = write_message (ce_to_vec env) msg (cl_conns s c)
      in (is_ok r, s\<lparr>cl_conns := (cl_conns s)(c := w)\<rparr>))"

definition send_or_drop :: "'p client_env \<Rightarrow> client_message \<Rightarrow> client_state \<Rightarrow> client_state" where
  "send_or_drop env msg s =
     (case cl_server s of
        None \<Rightarrow> s
      | Some c \<Rightarrow>
          (let (ok, s') = write_on env c msg s
           in if ok then s' else s'\<lparr>cl_server := None\<rparr>))"

section \<open>The signal forwarding task\<close>

text \<open>A signal of the local game: the sender as text, the connection id, and its text form.\<close>

record game_signal =
  gs_network_id :: rstr
  gs_connection_id :: u64
  gs_line :: rstr

text \<open>\<open>target\<close> is the answer of \<open>LanSignaling::join_target\<close> for the connection id.\<close>

definition forward_signal :: "'p client_env \<Rightarrow> u64 option \<Rightarrow> game_signal \<Rightarrow> client_state \<Rightarrow> client_state" where
  "forward_signal env target signal s =
     (case parse_u64 (gs_network_id signal) of
        None \<Rightarrow> s
      | Some sender \<Rightarrow>
          if sender = ce_me env then s
          else if target = None \<and> cl_local_game_id s \<noteq> Some sender then s
          else
            (let conn = gs_connection_id signal;
                 s1 = (case target of
                         Some t \<Rightarrow> s\<lparr>cl_join_conns := hm_insert conn (sender, t) (cl_join_conns s)\<rparr>
                       | None \<Rightarrow> s);
                 target_id = (case target of Some t \<Rightarrow> t | None \<Rightarrow> 0)
             in case cl_server_writer s1 of
                  None \<Rightarrow> s1
                | Some c \<Rightarrow> snd (write_on env c (ClientSignal target_id conn (ce_me env) (gs_line signal)) s1)))"

section \<open>The reader task of a connection\<close>

definition game_targets :: "socket_addr list" where
  "game_targets = [SocketAddrV4 localhost_v4 7551, SocketAddrV6 1 7551 0 0]"

definition signal_route :: "u64 \<Rightarrow> u64 \<Rightarrow> client_state \<Rightarrow> (u64 \<times> u64) option" where
  "signal_route connection_id joiner_network_id s =
     (case cl_local_game_id s of
        Some game_id \<Rightarrow> Some (joiner_network_id, game_id)
      | None \<Rightarrow>
     (case hm_get (cl_join_conns s) connection_id of
        Some (game_id, target) \<Rightarrow> Some (target, game_id)
      | None \<Rightarrow> None))"

text \<open>The datagrams handed to the socket: a failed send is logged and changes nothing.\<close>

definition inject_signal ::
  "'p client_env \<Rightarrow> u64 \<Rightarrow> u64 \<Rightarrow> rstr \<Rightarrow> client_state \<Rightarrow> (u8 list \<times> socket_addr) list" where
  "inject_signal env connection_id joiner_network_id data s =
     (case signal_route connection_id joiner_network_id s of
        None \<Rightarrow> []
      | Some (sender, recipient) \<Rightarrow>
          (case ce_marshal_message env recipient data sender of
             Inr bytes \<Rightarrow> map (\<lambda>target. (bytes, target)) game_targets
           | Inl e \<Rightarrow> []))"

definition reader_message ::
  "'p client_env \<Rightarrow> nat \<Rightarrow> millis \<Rightarrow> server_message \<Rightarrow> client_state
     \<Rightarrow> client_state \<times> (u8 list \<times> socket_addr) list" where
  "reader_message env c now msg s =
     (let s = s\<lparr>cl_last_seen := now\<rparr>
      in case msg of
           HostList hosts \<Rightarrow>
             (s\<lparr>cl_chans := (cl_chans s)(c := snd (chan_send (HostList hosts) (cl_chans s c)))\<rparr>, [])
         | ServerSignal conn joiner data \<Rightarrow> (s, inject_signal env conn joiner data s)
         | IncomingJoin joiner session \<Rightarrow> (s, [])
         | JoinAccepted session \<Rightarrow> (s, [])
         | Registered sid \<Rightarrow> (s, [])
         | Pong \<Rightarrow> (s, [])
         | ErrorMessage e \<Rightarrow> (s, []))"

text \<open>
  The end of the task. A task that was aborted is cancelled when it next waits; until then
  it goes on, and when it reaches its end first it clears the flag like any other.
\<close>

definition reader_end :: "nat \<Rightarrow> client_state \<Rightarrow> client_state" where
  "reader_end c s =
     s\<lparr>cl_readers := removeAll c (cl_readers s), cl_aborted := removeAll c (cl_aborted s), cl_reader_alive := False\<rparr>"

definition reader_cancelled :: "nat \<Rightarrow> client_state \<Rightarrow> client_state" where
  "reader_cancelled c s = s\<lparr>cl_aborted := removeAll c (cl_aborted s)\<rparr>"

text \<open>
  The whole reader task over the bytes of a connection, and the datagrams it sends into the
  game; \<open>clock i\<close> is the time when the \<open>i\<close>-th message is read, and the rest of the client
  does not move in between.
\<close>

function reader_loop ::
  "(u8 list \<Rightarrow> (server_message, rstr) result) \<Rightarrow> 'p client_env \<Rightarrow> nat \<Rightarrow> (nat \<Rightarrow> millis) \<Rightarrow> nat \<Rightarrow> reader
     \<Rightarrow> client_state \<Rightarrow> client_state \<times> (u8 list \<times> socket_addr) list" where
  "reader_loop from_slice env c clock i r s =
     (case read_message from_slice r of
        (Inl e, r') \<Rightarrow> (reader_end c s, [])
      | (Inr None, r') \<Rightarrow> (reader_end c s, [])
      | (Inr (Some msg), r') \<Rightarrow>
          (let (s1, out) = reader_message env c (clock i) msg s;
               (s2, out') = reader_loop from_slice env c clock (i + 1) r' s1
           in (s2, out @ out')))"
  by pat_completeness auto
termination
  by (relation "measure (\<lambda>(_, _, _, _, _, r, _). length (rbuf r))") (auto simp: read_message_shrinks [OF sym])

declare reader_loop.simps [simp del]

section \<open>The main loop\<close>

text \<open>
  The top of an iteration: clean up after a dropped connection. \<open>abort\<close> only tells a task
  that still runs to stop.
\<close>

definition reap_reader :: "client_state \<Rightarrow> client_state" where
  "reap_reader s =
     (case (cl_server s, cl_reader_task s) of
        (None, Some c) \<Rightarrow>
          s\<lparr>cl_reader_task := None, cl_readers := removeAll c (cl_readers s),
             cl_aborted := filter (\<lambda>d. d = c) (cl_readers s) @ cl_aborted s, cl_server_writer := None\<rparr>
      | _ \<Rightarrow> s)"

definition connection_lost :: "millis \<Rightarrow> client_state \<Rightarrow> bool" where
  "connection_lost now s \<longleftrightarrow>
     cl_server s \<noteq> None \<and> (\<not> cl_reader_alive s \<or> now - cl_last_seen s > LIVENESS_TIMEOUT)"

text \<open>A new connection: its write half, a fresh channel and a fresh reader task.\<close>

definition connected :: "millis \<Rightarrow> writer \<Rightarrow> client_state \<Rightarrow> client_state" where
  "connected now w s =
     (let c = cl_next s
      in s\<lparr>cl_next := c + 1,
           cl_conns := (cl_conns s)(c := w),
           cl_chans := (case cl_incoming s of
              None \<Rightarrow> (cl_chans s)(c := chan_new)
            | Some old \<Rightarrow> ((cl_chans s)(old := chan_close (cl_chans s old)))(c := chan_new)),
           cl_server_writer := Some c,
           cl_reader_alive := True,
           cl_last_seen := now,
           cl_last_ping := now,
           cl_readers := c # cl_readers s,
           cl_reader_task := Some c,
           cl_server := Some c,
           cl_incoming := Some c,
           cl_hosting_registered := False,
           cl_registered_ad := None\<rparr>)"

text \<open>
  The part of an iteration before the game is looked at; \<open>connect\<close> is what
  \<open>TcpStream::connect\<close> returns, should it be called. Afterwards the loop is back at its top
  (\<open>continue\<close>) or goes on to the game.
\<close>

definition connection_phase :: "millis \<Rightarrow> (writer, io_error) result \<Rightarrow> client_state \<Rightarrow> client_state" where
  "connection_phase now connect s =
     (let s = reap_reader s
      in if connection_lost now s then s\<lparr>cl_server := None, cl_pc := AtTop\<rparr>
         else if cl_server s = None
         then case connect of
                Inr w \<Rightarrow> (connected now w s)\<lparr>cl_pc := AtGame\<rparr>
              | Inl e \<Rightarrow> s\<lparr>cl_pc := AtTop\<rparr>
         else s\<lparr>cl_pc := AtGame\<rparr>)"

subsection \<open>What the game does\<close>

definition advertisement_of :: "server_data \<Rightarrow> server_advertisement" where
  "advertisement_of sd =
     \<lparr>server_name = sd_server_name sd, level_name = sd_level_name sd,
      game_type = sd_game_type sd, player_count = sd_player_count sd,
      max_player_count = sd_max_player_count sd, editor_world = sd_editor_world sd,
      hardcore = sd_hardcore sd, flag_a = sd_flag_a sd, flag_b = sd_flag_b sd,
      session_id = sd_session_id sd, transport_layer = sd_transport_layer sd,
      connection_type = sd_connection_type sd\<rparr>"

text \<open>
  One probe of the game: the marshalled request, whether each of the two sends worked, and
  the servers \<open>LanSignaling::discover\<close> lists after the wait.
\<close>

record probe_run =
  pr_request :: "(u8 list, nethernet_error) result"
  pr_sent :: "bool list"
  pr_servers :: "(u64 \<times> server_data) list"

definition probe_host_server_data :: "probe_run \<Rightarrow> (u64 \<times> server_advertisement) option" where
  "probe_host_server_data pr =
     (case pr_request pr of
        Inl _ \<Rightarrow> None
      | Inr request \<Rightarrow>
          if \<not> list_ex id (pr_sent pr) then None
          else case pr_servers pr of
                 [] \<Rightarrow> None
               | (game_id, sd) # _ \<Rightarrow> Some (game_id, advertisement_of sd))"

definition detect_game_state ::
  "(bool, 'e) result \<Rightarrow> probe_run \<Rightarrow> game_state \<times> (u64 \<times> server_advertisement) option" where
  "detect_game_state port_bound pr =
     (case port_bound of
        Inr True \<Rightarrow>
          (case probe_host_server_data pr of
             Some world \<Rightarrow> (Hosting, Some world)
           | None \<Rightarrow> (Browsing, None))
      | Inr False \<Rightarrow> (GameClosed, None)
      | Inl e \<Rightarrow> (GameClosed, None))"

subsection \<open>Acting on it\<close>

definition unregister :: "'p client_env \<Rightarrow> client_state \<Rightarrow> client_state" where
  "unregister env s =
     (if cl_hosting_registered s
      then (send_or_drop env (UnregisterHost (ce_me env)) s)
             \<lparr>cl_hosting_registered := False, cl_registered_ad := None, cl_local_game_id := None\<rparr>
      else s)"

definition withdraw_adverts :: "'p client_env \<Rightarrow> client_state \<Rightarrow> client_state" where
  "withdraw_adverts env s =
     (if cl_advertised_count s > 0
      then s\<lparr>cl_adverts := replace_all (ce_codec env) [] (cl_adverts s), cl_advertised_count := 0\<rparr>
      else s)"

definition game_closed :: "'p client_env \<Rightarrow> client_state \<Rightarrow> client_state" where
  "game_closed env s = (withdraw_adverts env (unregister env s))\<lparr>cl_pc := AtPing\<rparr>"

definition fallback_ad :: "'p client_env \<Rightarrow> server_advertisement" where
  "fallback_ad env = default_advertisement\<lparr>session_id := fmt_016x (ce_me env)\<rparr>"

definition game_hosting ::
  "'p client_env \<Rightarrow> (u64 \<times> server_advertisement) option \<Rightarrow> client_state \<Rightarrow> client_state" where
  "game_hosting env world s =
     (let s1 = (case world of Some (game_id, _) \<Rightarrow> s\<lparr>cl_local_game_id := Some game_id\<rparr> | None \<Rightarrow> s);
          ad = (case world of Some (_, ad) \<Rightarrow> ad | None \<Rightarrow> fallback_ad env);
          host_changed = (\<not> cl_hosting_registered s1 \<or> cl_registered_ad s1 \<noteq> Some ad)
      in if \<not> host_changed then s1\<lparr>cl_pc := AtPing\<rparr>
         else
           (let s2 = withdraw_adverts env s1;
                s3 = s2\<lparr>cl_adverts := update_host (ce_codec env) (ce_me env) ad (cl_adverts s2)\<rparr>;
                message = \<lparr>sender_id = ce_me env, ad_data = ad\<rparr>;
                s4 = send_or_drop env
                       (if cl_hosting_registered s3 then UpdateHost message else RegisterHost message) s3
            in s4\<lparr>cl_hosting_registered := (cl_server s4 \<noteq> None),
                  cl_registered_ad := (if cl_server s4 \<noteq> None then Some ad else None),
                  cl_pc := AtPing\<rparr>))"

text \<open>
  Browsing: the request of \<open>fetch_host_list\<close>, then its wait for the answer. A failure at any
  point drops the connection.
\<close>

definition fetch_failed :: "client_state \<Rightarrow> client_state" where
  "fetch_failed s = s\<lparr>cl_server := None, cl_pc := AtPing\<rparr>"

definition fetch_request :: "'p client_env \<Rightarrow> millis \<Rightarrow> client_state \<Rightarrow> client_state" where
  "fetch_request env now s =
     (case cl_server s of
        None \<Rightarrow> fetch_failed s
      | Some c \<Rightarrow>
          (let (ok, s1) = write_on env c ListHosts s
           in if \<not> ok then fetch_failed s1
              else case cl_incoming s1 of
                     None \<Rightarrow> fetch_failed s1
                   | Some _ \<Rightarrow> s1\<lparr>cl_pc := AtFetch (now + LIST_TIMEOUT)\<rparr>))"

definition game_browsing :: "'p client_env \<Rightarrow> millis \<Rightarrow> client_state \<Rightarrow> client_state" where
  "game_browsing env now s = fetch_request env now (unregister env s)"

definition fetched :: "'p client_env \<Rightarrow> u64 hasher \<Rightarrow> advertised_server list \<Rightarrow> client_state \<Rightarrow> client_state" where
  "fetched env h hosts s =
     (let m = replace_all (ce_codec env) hosts (cl_adverts s)
      in s\<lparr>cl_adverts := m, cl_advertised_count := length (advertised h m), cl_pc := AtPing\<rparr>)"

text \<open>
  One turn of the wait: a message of the channel, or the end of the channel when it is
  empty and its reader task is gone; otherwise the wait goes on. The time limit is a turn of
  its own: a message that is there when the limit passes may still be taken.
\<close>

definition fetch_turn :: "'p client_env \<Rightarrow> u64 hasher \<Rightarrow> client_state \<Rightarrow> client_state" where
  "fetch_turn env h s =
     (case cl_incoming s of
        None \<Rightarrow> fetch_failed s
      | Some c \<Rightarrow>
          (case chan_try_recv (cl_chans s c) of
             (Some (HostList hosts), ch) \<Rightarrow> fetched env h hosts (s\<lparr>cl_chans := (cl_chans s)(c := ch)\<rparr>)
           | (Some _, ch) \<Rightarrow> s\<lparr>cl_chans := (cl_chans s)(c := ch)\<rparr>
           | (None, ch) \<Rightarrow> if c \<notin> set (cl_readers s) \<union> set (cl_aborted s) then fetch_failed s else s))"

definition fetch_timeout :: "millis \<Rightarrow> millis \<Rightarrow> client_state \<Rightarrow> client_state" where
  "fetch_timeout deadline now s = (if deadline \<le> now then fetch_failed s else s)"

definition game_phase ::
  "'p client_env \<Rightarrow> millis \<Rightarrow> game_state \<times> (u64 \<times> server_advertisement) option \<Rightarrow> client_state \<Rightarrow> client_state" where
  "game_phase env now detected s =
     (case detected of
        (GameClosed, _) \<Rightarrow> game_closed env s
      | (Hosting, world) \<Rightarrow> game_hosting env world s
      | (Browsing, _) \<Rightarrow> game_browsing env now s)"

definition heartbeat :: "'p client_env \<Rightarrow> millis \<Rightarrow> client_state \<Rightarrow> client_state" where
  "heartbeat env now s =
     (if cl_server s \<noteq> None \<and> now - cl_last_ping s \<ge> PING_INTERVAL
      then (send_or_drop env Ping s)\<lparr>cl_last_ping := now, cl_pc := AtTop\<rparr>
      else s\<lparr>cl_pc := AtTop\<rparr>)"

end
