(* ===== verification/Platform_Select.thy ===== *)
theory Platform_Select
  imports Discovery_Setup Client
begin

text \<open>
  The choice of a platform (\<open>crates/core/src/platform.rs\<close>): the core crate re-exports the
  functions of exactly one platform crate, by the target it is compiled for, and the public
  functions of the Windows crate call its native module on Windows and its stubs elsewhere.
  Whatever the target, the core crate sees one contract: a port probe that is exact on an
  intact host, and sockets made by the same four calls.
\<close>

section \<open>The public functions of the Windows crate\<close>

text \<open>\<open>cfg_windows\<close> is \<open>cfg(windows)\<close> of the build.\<close>

definition windows_crate_udp_port_bound :: "bool \<Rightarrow> udp_table_api \<Rightarrow> u16 \<Rightarrow> (bool, windows_error) result" where
  "windows_crate_udp_port_bound cfg_windows api port =
     (if cfg_windows then windows_udp_port_bound api port else stub_udp_port_bound port)"

definition windows_crate_owner_pid_of_port :: "bool \<Rightarrow> udp_table_api \<Rightarrow> u16 \<Rightarrow> (u32 option, windows_error) result" where
  "windows_crate_owner_pid_of_port cfg_windows api port =
     (if cfg_windows then owner_pid_of_port api port else stub_owner_pid_of_port port)"

definition windows_crate_minecraft_process_running :: "bool \<Rightarrow> process_snapshot \<Rightarrow> bool" where
  "windows_crate_minecraft_process_running cfg_windows snapshot =
     (if cfg_windows then windows_minecraft_process_running snapshot else stub_minecraft_process_running)"

definition windows_crate_create_udp_socket :: "bool \<Rightarrow> 's socket2 \<Rightarrow> socket_addr \<Rightarrow> ('s, windows_error) result" where
  "windows_crate_create_udp_socket cfg_windows so addr =
     (if cfg_windows then windows_create_udp_socket so addr else stub_create_udp_socket so addr)"

definition windows_crate_ensure_loopback_exempt ::
  "bool \<Rightarrow> (rstr \<Rightarrow> rstr list \<Rightarrow> (exit_status, io_error) result) \<Rightarrow> (unit, windows_error) result" where
  "windows_crate_ensure_loopback_exempt cfg_windows run =
     (if cfg_windows then ensure_loopback_exempt run else stub_ensure_loopback_exempt)"

section \<open>Selection\<close>

datatype target_os = TargetAndroid | TargetLinux | TargetWindows

datatype platform_error =
  OfAndroid android_error
| OfLinux linux_error
| OfWindows windows_error

fun display_platform_error :: "platform_error \<Rightarrow> rstr" where
  "display_platform_error (OfAndroid e) = display_android_error e"
| "display_platform_error (OfLinux e) = display_linux_error e"
| "display_platform_error (OfWindows e) = display_windows_error e"

text \<open>What a host offers to the probes of the platform crates.\<close>

record host =
  host_fs :: file_system
  host_udp_table :: udp_table_api
  host_snapshot :: process_snapshot
  host_run :: command_runner

fun platform_udp_port_bound :: "target_os \<Rightarrow> host \<Rightarrow> u16 \<Rightarrow> (bool, platform_error) result" where
  "platform_udp_port_bound TargetAndroid host port = map_err OfAndroid (android_udp_port_bound (host_fs host) port)"
| "platform_udp_port_bound TargetLinux host port = map_err OfLinux (linux_udp_port_bound (host_fs host) port)"
| "platform_udp_port_bound TargetWindows host port =
     map_err OfWindows (windows_crate_udp_port_bound True (host_udp_table host) port)"

text \<open>The process scan of Linux looks at the host twice.\<close>

fun platform_minecraft_process_running :: "target_os \<Rightarrow> case_table \<Rightarrow> host \<Rightarrow> host \<Rightarrow> bool" where
  "platform_minecraft_process_running TargetAndroid table host host' =
     android_minecraft_process_running table (host_fs host)"
| "platform_minecraft_process_running TargetLinux table host host' =
     linux_minecraft_process_running table (host_run host') (host_fs host) (host_fs host')"
| "platform_minecraft_process_running TargetWindows table host host' =
     windows_crate_minecraft_process_running True (host_snapshot host)"

fun platform_create_udp_socket :: "target_os \<Rightarrow> 's socket2 \<Rightarrow> socket_addr \<Rightarrow> ('s, platform_error) result" where
  "platform_create_udp_socket TargetAndroid so addr = map_err OfAndroid (android_create_udp_socket so addr)"
| "platform_create_udp_socket TargetLinux so addr = map_err OfLinux (linux_create_udp_socket so addr)"
| "platform_create_udp_socket TargetWindows so addr =
     map_err OfWindows (windows_crate_create_udp_socket True so addr)"

section \<open>The probe of the selected platform\<close>

fun platform_ports :: "target_os \<Rightarrow> host \<Rightarrow> u16 set" where
  "platform_ports TargetWindows host = listed_ports (host_udp_table host)"
| "platform_ports _ host = kernel_ports (host_fs host)"

fun platform_intact :: "target_os \<Rightarrow> host \<Rightarrow> bool" where
  "platform_intact TargetWindows host \<longleftrightarrow> table_answered (host_udp_table host)"
| "platform_intact _ host \<longleftrightarrow> tables_readable (host_fs host)"

interpretation platform_probe:
  port_probe "platform_udp_port_bound os" "platform_ports os" "platform_intact os" for os
proof unfold_locales
  fix host p assume "platform_intact os host"
  then show "platform_udp_port_bound os host p = Ok (p \<in> platform_ports os host)"
    by (cases os) (simp_all add: map_err_def android_probe.probe_exact linux_probe.probe_exact
        windows_probe.probe_exact windows_crate_udp_port_bound_def)
qed

context port_probe
begin

text \<open>On an intact host the client takes the game for closed exactly when port 7551 is free.\<close>

lemma closed_iff_free:
  "intact env \<Longrightarrow> fst (detect_game_state (probe env 7551) pr) = GameClosed \<longleftrightarrow> 7551 \<notin> bound_ports env"
  by (simp add: detect_game_state_def probe_exact split: bool.split option.split)

lemma hosting_iff_answer:
  "intact env \<Longrightarrow> fst (detect_game_state (probe env 7551) pr) = Hosting \<longleftrightarrow>
    7551 \<in> bound_ports env \<and> probe_host_server_data pr \<noteq> None"
  by (simp add: detect_game_state_def probe_exact split: bool.split option.split)

end

text \<open>
  What a system reports of its sockets. \<open>v4\<close> and \<open>v6\<close> are the local ports of the UDP sockets
  bound on IPv4 and on IPv6. A kernel table lists the ports of one protocol, and is absent
  when the kernel lacks the protocol. The call on Windows is asked for the IPv4 table, and
  lists the IPv4 sockets only.
\<close>

definition prints_ports :: "file_system \<Rightarrow> rstr \<Rightarrow> u16 set \<Rightarrow> bool" where
  "prints_ports fs path ports \<longleftrightarrow>
     (\<exists>header rows. plain_line header \<and> (\<forall>r\<in>set rows. row_wf r)
        \<and> fs_read_to_string fs path = Ok (render_table header rows) \<and> row_port ` set rows = ports)
     \<or> (\<exists>e. fs_read_to_string fs path = Err e \<and> io_kind e = KNotFound \<and> ports = {})"

fun os_reports :: "target_os \<Rightarrow> host \<Rightarrow> u16 set \<Rightarrow> u16 set \<Rightarrow> bool" where
  "os_reports TargetWindows host v4 v6 \<longleftrightarrow>
     table_answered (host_udp_table host) \<and> listed_ports (host_udp_table host) = v4"
| "os_reports _ host v4 v6 \<longleftrightarrow>
     prints_ports (host_fs host) (lit ''/proc/net/udp'') v4 \<and> prints_ports (host_fs host) (lit ''/proc/net/udp6'') v6"

text \<open>The sockets a platform crate can see.\<close>

fun seen_ports :: "target_os \<Rightarrow> u16 set \<Rightarrow> u16 set \<Rightarrow> u16 set" where
  "seen_ports TargetWindows v4 v6 = v4"
| "seen_ports _ v4 v6 = v4 \<union> v6"

lemma prints_render:
  "plain_line header \<Longrightarrow> \<forall>r\<in>set rows. row_wf r \<Longrightarrow>
    fs_read_to_string fs path = Ok (render_table header rows) \<Longrightarrow> prints_ports fs path (row_port ` set rows)"
  by (auto simp: prints_ports_def)

lemma kernel_reports:
  assumes "prints_ports fs (lit ''/proc/net/udp'') v4" and "prints_ports fs (lit ''/proc/net/udp6'') v6"
  shows "tables_readable fs \<and> kernel_ports fs = v4 \<union> v6"
proof -
  have table: "(case fs_read_to_string fs t of Inl e \<Rightarrow> io_kind e = KNotFound | Inr _ \<Rightarrow> True)
      \<and> {p. \<exists>c. fs_read_to_string fs t = Ok c \<and> p \<in> table_ports c} = ports"
    if "prints_ports fs t ports" for t ports
    using that by (auto simp: prints_ports_def table_ports_render)
  have "kernel_ports fs = {p. \<exists>c. fs_read_to_string fs (lit ''/proc/net/udp'') = Ok c \<and> p \<in> table_ports c}
      \<union> {p. \<exists>c. fs_read_to_string fs (lit ''/proc/net/udp6'') = Ok c \<and> p \<in> table_ports c}"
    unfolding kernel_ports_def udp_tables_def by (auto simp del: lit_Cons)
  then show ?thesis
    using table [OF assms(1)] table [OF assms(2)] by (simp add: tables_readable_def udp_tables_def del: lit_Cons)
qed

lemma os_reports_intact:
  "os_reports os host v4 v6 \<Longrightarrow> platform_intact os host \<and> platform_ports os host = seen_ports os v4 v6"
  by (cases os) (auto dest: kernel_reports simp del: lit_Cons)

text \<open>
  C26: when the system reports its sockets, the client takes the game for closed on Linux and
  Android exactly when no UDP socket is bound to port 7551, on IPv4 or on IPv6, and on
  Windows exactly when none is bound to it on IPv4: a socket bound on IPv6 alone is not
  seen there. It takes the game for hosting exactly when it sees a socket and the game
  answered the probe. When the probe of the port fails, on any target and for any reason, the
  game is taken for closed, whether or not a socket is bound.
\<close>

theorem game_state_on_every_platform:
  assumes "os_reports os host v4 v6"
  shows "(os \<noteq> TargetWindows \<longrightarrow>
        (fst (detect_game_state (platform_udp_port_bound os host 7551) pr) = GameClosed \<longleftrightarrow> 7551 \<notin> v4 \<union> v6))
    \<and> (os = TargetWindows \<longrightarrow>
        (fst (detect_game_state (platform_udp_port_bound os host 7551) pr) = GameClosed \<longleftrightarrow> 7551 \<notin> v4))
    \<and> (fst (detect_game_state (platform_udp_port_bound os host 7551) pr) = Hosting \<longleftrightarrow>
        7551 \<in> seen_ports os v4 v6 \<and> probe_host_server_data pr \<noteq> None)
    \<and> (platform_udp_port_bound os' host' 7551 = Err e \<longrightarrow>
        detect_game_state (platform_udp_port_bound os' host' 7551) pr = (GameClosed, None))"
proof -
  have ports: "platform_intact os host" "platform_ports os host = seen_ports os v4 v6"
    using os_reports_intact [OF assms] by simp_all
  have "platform_udp_port_bound os' host' 7551 = Err e \<longrightarrow>
        detect_game_state (platform_udp_port_bound os' host' 7551) pr = (GameClosed, None)"
    by (simp add: detect_game_state_def)
  then show ?thesis
    using platform_probe.closed_iff_free [OF ports(1), of pr] platform_probe.hosting_iff_answer [OF ports(1), of pr]
    unfolding ports(2) by (cases os) (simp_all only: seen_ports.simps target_os.distinct simp_thms)
qed

text \<open>From the same kernel tables Android and Linux draw the same conclusion.\<close>

lemma android_state_eq_linux:
  "detect_game_state (platform_udp_port_bound TargetAndroid host 7551) pr
    = detect_game_state (platform_udp_port_bound TargetLinux host 7551) pr"
  by (auto simp: detect_game_state_def android_probe_eq map_err_def split: sum.splits)

text \<open>Hosts with IPv4 sockets on port 7551, and one with a socket on IPv6 alone.\<close>

definition sample_host :: host where
  "sample_host = \<lparr>host_fs = host_with_tables (render_table sample_header sample_rows) (render_table sample_header []),
     host_udp_table = sample_api, host_snapshot = None, host_run = (\<lambda>_ _. Ok False)\<rparr>"

definition ipv6_host :: host where
  "ipv6_host = sample_host\<lparr>host_udp_table := sample_api\<lparr>ut_fill := (\<lambda>_. (0, Some [\<lparr>dwLocalPort = 13568, dwOwningPid = 4\<rparr>]))\<rparr>\<rparr>"

lemma sample_reports_linux: "os_reports TargetLinux sample_host {53, 7551, 68} {}"
proof -
  let ?fs = "host_fs sample_host"
  have "prints_ports ?fs (lit ''/proc/net/udp'') (row_port ` set sample_rows)"
    and "prints_ports ?fs (lit ''/proc/net/udp6'') (row_port ` set ([] :: udp_row list))"
    by (rule prints_render [OF sample_wf], simp add: sample_host_def host_with_tables_def)
      (rule prints_render [OF sample_wf(1)]; simp add: sample_host_def host_with_tables_def)
  then show ?thesis by (simp add: sample_rows_def del: lit_Cons)
qed

lemma sample_reports_windows:
  "os_reports TargetWindows sample_host {53, 7551} {}" "os_reports TargetWindows ipv6_host {53} {7551}"
  by (auto simp: sample_host_def ipv6_host_def table_answered_def listed_ports_def sample_api_def u16_from_be_def)

theorem game_state_on_every_platform_witness:
  "let pr = \<lparr>pr_request = Ok [], pr_sent = [True, False], pr_servers = []\<rparr>
    in fst (detect_game_state (platform_udp_port_bound TargetLinux sample_host 7551) pr) \<noteq> GameClosed
     \<and> fst (detect_game_state (platform_udp_port_bound TargetWindows sample_host 7551) pr) \<noteq> GameClosed
     \<and> fst (detect_game_state (platform_udp_port_bound TargetWindows ipv6_host 7551) pr) = GameClosed"
  using game_state_on_every_platform [OF sample_reports_linux]
    game_state_on_every_platform [OF sample_reports_windows(1)]
    game_state_on_every_platform [OF sample_reports_windows(2)]
  by (simp add: Let_def)

section \<open>Sockets\<close>

text \<open>The four calls that make a socket, and the first error among them.\<close>

definition new_udp_socket :: "'s socket2 \<Rightarrow> socket_addr \<Rightarrow> ('s, io_error) result" where
  "new_udp_socket so addr =
     (case so_new so addr of Inl e \<Rightarrow> Err e | Inr s \<Rightarrow>
     (case so_set_reuse_address so True s of Inl e \<Rightarrow> Err e | Inr s \<Rightarrow>
     (case so_set_broadcast so True s of Inl e \<Rightarrow> Err e | Inr s \<Rightarrow> so_bind so addr s)))"

fun platform_io :: "target_os \<Rightarrow> io_error \<Rightarrow> platform_error" where
  "platform_io TargetAndroid e = OfAndroid (AndroidIo e)"
| "platform_io TargetLinux e = OfLinux (LinuxIo e)"
| "platform_io TargetWindows e = OfWindows (WindowsIo e)"

lemma display_platform_io [simp]: "display_platform_error (platform_io os e) = lit ''io error: '' @ io_text e"
  by (cases os) simp_all

lemma platform_socket_eq: "platform_create_udp_socket os so addr = map_err (platform_io os) (new_udp_socket so addr)"
  by (cases os)
    (simp_all add: new_udp_socket_def android_create_udp_socket_def linux_create_udp_socket_def
      windows_crate_create_udp_socket_def windows_create_udp_socket_def map_err_def split: sum.split)

lemma stub_socket_eq: "stub_create_udp_socket so addr = windows_create_udp_socket so addr"
  by (simp add: stub_create_udp_socket_def windows_create_udp_socket_def)

text \<open>
  The discovery service starts alike on every platform: it fails with the platform error
  of the first of the four socket calls that fails, printed the same everywhere, and
  otherwise goes on with the bound socket.
\<close>

lemma discovery_new_on_every_platform:
  "discovery_new (platform_create_udp_socket os so) display_platform_error la i config =
     (case new_udp_socket so (bind_addr config) of
        Inl e \<Rightarrow> Err (Platform (lit ''io error: '' @ io_text e))
      | Inr socket \<Rightarrow> with_socket la i config socket)"
  by (simp add: discovery_new_def platform_socket_eq map_err_def split: sum.split del: lit_Cons)

end
