(* ===== verification/Client_Machine.thy ===== *)
theory Client_Machine
  imports Client "HOL-Library.Sublist"
begin

text \<open>
  The node client as a concurrent machine: the main loop, the reader task of each
  connection and the signal forwarding task take turns in any order. An event names the
  task that moves and what its environment answers. The invariants say what the rendezvous
  server can count on: on every connection the messages follow the registration protocol,
  and what was announced last on the current connection is what the client believes.
\<close>

section \<open>Steps\<close>

datatype client_event =
  EvConnection millis "(writer, io_error) result"
| EvGame millis "game_state \<times> (u64 \<times> server_advertisement) option"
| EvFetch
| EvFetchTimeout millis
| EvHeartbeat millis
| EvReaderMessage nat millis server_message
| EvReaderEnd nat
| EvReaderCancelled nat
| EvSignal "u64 option" game_signal

inductive client_step :: "'p client_env \<Rightarrow> client_state \<Rightarrow> client_event \<Rightarrow> client_state \<Rightarrow> bool"
  for env :: "'p client_env" where
  cs_connection: "cl_pc s = AtTop \<Longrightarrow> (\<And>w. connect = Ok w \<Longrightarrow> wbuf w = []) \<Longrightarrow>
    client_step env s (EvConnection now connect) (connection_phase now connect s)"
| cs_game: "cl_pc s = AtGame \<Longrightarrow>
    client_step env s (EvGame now detected) (game_phase env now detected s)"
| cs_fetch: "cl_pc s = AtFetch deadline \<Longrightarrow> client_step env s EvFetch (fetch_turn env h s)"
| cs_fetch_timeout: "cl_pc s = AtFetch deadline \<Longrightarrow>
    client_step env s (EvFetchTimeout now) (fetch_timeout deadline now s)"
| cs_heartbeat: "cl_pc s = AtPing \<Longrightarrow> client_step env s (EvHeartbeat now) (heartbeat env now s)"
| cs_reader_message: "c \<in> set (cl_readers s) \<union> set (cl_aborted s) \<Longrightarrow>
    client_step env s (EvReaderMessage c now msg) (fst (reader_message env c now msg s))"
| cs_reader_end: "c \<in> set (cl_readers s) \<union> set (cl_aborted s) \<Longrightarrow>
    client_step env s (EvReaderEnd c) (reader_end c s)"
| cs_reader_cancelled: "c \<in> set (cl_aborted s) \<Longrightarrow>
    client_step env s (EvReaderCancelled c) (reader_cancelled c s)"
| cs_signal: "client_step env s (EvSignal target signal) (forward_signal env target signal s)"

inductive_cases client_stepE: "client_step env s e t"

definition client_init :: "client_state \<Rightarrow> bool" where
  "client_init s \<longleftrightarrow> (\<exists>now. s = client_start now)"

section \<open>The registration protocol\<close>

text \<open>The world a sequence of messages announces last, if any.\<close>

fun announces :: "client_message \<Rightarrow> server_advertisement option \<Rightarrow> server_advertisement option" where
  "announces (RegisterHost server) a = Some (ad_data server)"
| "announces (UpdateHost server) a = Some (ad_data server)"
| "announces (UnregisterHost sid) a = None"
| "announces _ a = a"

abbreviation announced :: "client_message list \<Rightarrow> server_advertisement option" where
  "announced ms \<equiv> fold announces ms None"

text \<open>
  A message a client with network id \<open>me\<close> may send when it has announced \<open>a\<close>: it registers
  only when nothing is announced, updates and unregisters only when something is, always
  under its own id, and signs its signals with it.
\<close>

fun allowed :: "u64 \<Rightarrow> server_advertisement option \<Rightarrow> client_message \<Rightarrow> bool" where
  "allowed me a (RegisterHost server) \<longleftrightarrow> a = None \<and> sender_id server = me"
| "allowed me a (UpdateHost server) \<longleftrightarrow> a \<noteq> None \<and> sender_id server = me"
| "allowed me a (UnregisterHost sid) \<longleftrightarrow> a \<noteq> None \<and> sid = me"
| "allowed me a (ClientSignal target conn joiner data) \<longleftrightarrow> joiner = me"
| "allowed me a (ConnectRequest target joiner) \<longleftrightarrow> False"
| "allowed me a ListHosts \<longleftrightarrow> True"
| "allowed me a Ping \<longleftrightarrow> True"

fun protocol :: "u64 \<Rightarrow> server_advertisement option \<Rightarrow> client_message list \<Rightarrow> bool" where
  "protocol me a [] \<longleftrightarrow> True"
| "protocol me a (m # ms) \<longleftrightarrow> allowed me a m \<and> protocol me (announces m a) ms"

lemma protocol_append: "protocol me a (ms @ ms') \<longleftrightarrow> protocol me a ms \<and> protocol me (fold announces ms a) ms'"
  by (induction ms arbitrary: a) auto

lemma protocol_prefix: "protocol me a ms' \<Longrightarrow> prefix ms ms' \<Longrightarrow> protocol me a ms"
  by (auto simp: prefix_def protocol_append)

section \<open>What was written on a connection\<close>

definition written :: "'p client_env \<Rightarrow> client_message list \<Rightarrow> writer \<Rightarrow> bool" where
  "written env ms w \<longleftrightarrow> (\<exists>w0. wbuf w0 = [] \<and> w = fold (\<lambda>m w. snd (write_message (ce_to_vec env) m w)) ms w0)"

lemma written_Nil: "wbuf w = [] \<Longrightarrow> written env [] w"
  by (auto simp: written_def)

lemma written_snoc: "written env ms w \<Longrightarrow> written env (ms @ [m]) (snd (write_message (ce_to_vec env) m w))"
  by (auto simp: written_def)

text \<open>Once a write was cut short, no later write adds a byte: the stream is a prefix.\<close>

lemma length_frame_bytes_pos: "0 < length (frame_bytes p)"
  by (simp add: frame_bytes_def u32_to_le_bytes_def)

lemma write_message_prefix:
  assumes "prefix (wbuf w) all" and "wbuf w = all \<or> (\<exists>e. wlimit w = Some (0, e))"
    and "to_vec m = Ok p" and "w' = snd (write_message to_vec m w)"
  shows "prefix (wbuf w') (all @ frame_bytes p)
    \<and> (wbuf w' = all @ frame_bytes p \<or> (\<exists>e. wlimit w' = Some (0, e)))"
proof (cases "wbuf w = all")
  case True
  then show ?thesis
    using assms(3,4) by (auto simp: write_message_def write_all_def take_is_prefix split: option.splits)
next
  case False
  then obtain e where "wlimit w = Some (0, e)" using assms(2) by auto
  then have "wbuf w' = wbuf w \<and> wlimit w' = Some (0, e)"
    using assms(3,4) length_frame_bytes_pos [of p] by (simp add: write_message_def write_all_def)
  then show ?thesis using assms(1) by (simp add: prefix_prefix)
qed

lemma frames_snoc: "to_vec m = Ok p \<Longrightarrow> frames to_vec (ms @ [m]) = frames to_vec ms @ frame_bytes p"
  by (simp add: frames_def)

lemma fold_write_prefix:
  assumes "\<forall>m\<in>set ms. is_ok (to_vec m)" and "wbuf w0 = []"
    and "w = fold (\<lambda>m w. snd (write_message to_vec m w)) ms w0"
  shows "prefix (wbuf w) (frames to_vec ms) \<and> (wbuf w = frames to_vec ms \<or> (\<exists>e. wlimit w = Some (0, e)))"
  using assms(1,3)
proof (induction ms arbitrary: w rule: rev_induct)
  case Nil
  then show ?case using assms(2) by simp
next
  case (snoc m ms)
  obtain p where p: "to_vec m = Ok p" using snoc.prems(1) by (auto simp: is_ok_iff)
  let ?w = "fold (\<lambda>m w. snd (write_message to_vec m w)) ms w0"
  have "w = snd (write_message to_vec m ?w)" using snoc.prems(2) by simp
  then show ?case
    using write_message_prefix [of ?w "frames to_vec ms" to_vec m p w] snoc.IH [OF _ refl] snoc.prems(1) p
    by (simp add: frames_snoc)
qed

lemma written_prefix:
  assumes "written env ms w" and "\<forall>m\<in>set ms. is_ok (ce_to_vec env m)"
  shows "prefix (wbuf w) (frames (ce_to_vec env) ms)"
  using assms fold_write_prefix unfolding written_def by blast

section \<open>Invariant\<close>

text \<open>
  On every connection the messages written follow the protocol, and those of the current
  connection announce what the client has recorded as registered.
\<close>

definition conn_inv :: "'p client_env \<Rightarrow> client_state \<Rightarrow> nat \<Rightarrow> bool" where
  "conn_inv env s c \<longleftrightarrow> (\<exists>ms. written env ms (cl_conns s c) \<and> protocol (ce_me env) None ms
     \<and> (cl_server s = Some c \<longrightarrow> announced ms = cl_registered_ad s))"

definition proto_inv :: "'p client_env \<Rightarrow> client_state \<Rightarrow> bool" where
  "proto_inv env s \<longleftrightarrow> (\<forall>c. conn_inv env s c)
     \<and> (cl_server s \<noteq> None \<longrightarrow> cl_hosting_registered s = (cl_registered_ad s \<noteq> None))"

text \<open>
  The handles of the current connection belong together, the main loop reaches the game
  only while connected, and a running reader task is the one the client can abort.
\<close>

definition handle_inv :: "client_state \<Rightarrow> bool" where
  "handle_inv s \<longleftrightarrow>
     (\<forall>c. cl_server s = Some c \<longrightarrow>
        cl_server_writer s = Some c \<and> cl_incoming s = Some c \<and> cl_reader_task s = Some c)
     \<and> (\<forall>c\<in>set (cl_readers s). cl_reader_task s = Some c)
     \<and> (\<forall>c. cl_server_writer s = Some c \<longrightarrow> cl_reader_task s = Some c)
     \<and> (cl_pc s = AtGame \<longrightarrow> cl_server s \<noteq> None)
     \<and> (\<forall>d. cl_pc s = AtFetch d \<longrightarrow> cl_server s \<noteq> None)"

definition client_inv :: "'p client_env \<Rightarrow> client_state \<Rightarrow> bool" where
  "client_inv env s \<longleftrightarrow> proto_inv env s \<and> handle_inv s \<and> coherent (ce_codec env) (cl_adverts s)"

subsection \<open>The protocol is kept\<close>

lemma proto_inv_other_fields [simp]:
  "proto_inv env (s\<lparr>cl_pc := pc\<rparr>) = proto_inv env s"
  "proto_inv env (s\<lparr>cl_adverts := m\<rparr>) = proto_inv env s"
  "proto_inv env (s\<lparr>cl_advertised_count := n\<rparr>) = proto_inv env s"
  "proto_inv env (s\<lparr>cl_local_game_id := g\<rparr>) = proto_inv env s"
  "proto_inv env (s\<lparr>cl_join_conns := j\<rparr>) = proto_inv env s"
  "proto_inv env (s\<lparr>cl_chans := ch\<rparr>) = proto_inv env s"
  "proto_inv env (s\<lparr>cl_last_seen := t\<rparr>) = proto_inv env s"
  "proto_inv env (s\<lparr>cl_last_ping := t\<rparr>) = proto_inv env s"
  "proto_inv env (s\<lparr>cl_readers := rs\<rparr>) = proto_inv env s"
  "proto_inv env (s\<lparr>cl_aborted := rs\<rparr>) = proto_inv env s"
  "proto_inv env (s\<lparr>cl_reader_task := rt\<rparr>) = proto_inv env s"
  "proto_inv env (s\<lparr>cl_reader_alive := b\<rparr>) = proto_inv env s"
  "proto_inv env (s\<lparr>cl_server_writer := sw\<rparr>) = proto_inv env s"
  by (simp_all add: proto_inv_def conn_inv_def)

lemma proto_inv_drop [intro]: "proto_inv env s \<Longrightarrow> proto_inv env (s\<lparr>cl_server := None\<rparr>)"
  by (auto simp: proto_inv_def conn_inv_def)

lemma write_on_sel [simp]:
  "cl_server (snd (write_on env c m s)) = cl_server s"
  "cl_server_writer (snd (write_on env c m s)) = cl_server_writer s"
  "cl_incoming (snd (write_on env c m s)) = cl_incoming s"
  "cl_reader_task (snd (write_on env c m s)) = cl_reader_task s"
  "cl_readers (snd (write_on env c m s)) = cl_readers s"
  "cl_aborted (snd (write_on env c m s)) = cl_aborted s"
  "cl_next (snd (write_on env c m s)) = cl_next s"
  "cl_pc (snd (write_on env c m s)) = cl_pc s"
  "cl_registered_ad (snd (write_on env c m s)) = cl_registered_ad s"
  "cl_hosting_registered (snd (write_on env c m s)) = cl_hosting_registered s"
  "cl_adverts (snd (write_on env c m s)) = cl_adverts s"
  "cl_advertised_count (snd (write_on env c m s)) = cl_advertised_count s"
  "cl_local_game_id (snd (write_on env c m s)) = cl_local_game_id s"
  "cl_join_conns (snd (write_on env c m s)) = cl_join_conns s"
  "cl_conns (snd (write_on env c m s)) = (cl_conns s)(c := snd (write_message (ce_to_vec env) m (cl_conns s c)))"
  by (simp_all add: write_on_def case_prod_beta)

lemma send_or_drop_sel [simp]:
  "cl_server_writer (send_or_drop env m s) = cl_server_writer s"
  "cl_incoming (send_or_drop env m s) = cl_incoming s"
  "cl_reader_task (send_or_drop env m s) = cl_reader_task s"
  "cl_readers (send_or_drop env m s) = cl_readers s"
  "cl_aborted (send_or_drop env m s) = cl_aborted s"
  "cl_next (send_or_drop env m s) = cl_next s"
  "cl_pc (send_or_drop env m s) = cl_pc s"
  "cl_registered_ad (send_or_drop env m s) = cl_registered_ad s"
  "cl_hosting_registered (send_or_drop env m s) = cl_hosting_registered s"
  "cl_adverts (send_or_drop env m s) = cl_adverts s"
  "cl_advertised_count (send_or_drop env m s) = cl_advertised_count s"
  "cl_local_game_id (send_or_drop env m s) = cl_local_game_id s"
  "cl_join_conns (send_or_drop env m s) = cl_join_conns s"
  by (auto simp: send_or_drop_def case_prod_beta split: option.splits)

lemma send_or_drop_server: "cl_server (send_or_drop env m s) = None \<or> cl_server (send_or_drop env m s) = cl_server s"
  by (auto simp: send_or_drop_def case_prod_beta split: option.splits)

text \<open>A neutral message may be sent at any time and announces nothing.\<close>

definition neutral :: "u64 \<Rightarrow> client_message \<Rightarrow> bool" where
  "neutral me m \<longleftrightarrow> (\<forall>a. allowed me a m \<and> announces m a = a)"

lemma neutral_messages [simp]:
  "neutral me ListHosts" "neutral me Ping" "neutral me (ClientSignal t c me d)"
  by (simp_all add: neutral_def)

lemma proto_inv_write_neutral:
  assumes "proto_inv env s" and "neutral (ce_me env) m"
  shows "proto_inv env (snd (write_on env c m s))"
proof -
  have "conn_inv env (snd (write_on env c m s)) d" for d
  proof -
    obtain ms where ms: "written env ms (cl_conns s d)" "protocol (ce_me env) None ms"
        "cl_server s = Some d \<longrightarrow> announced ms = cl_registered_ad s"
      using assms(1) by (auto simp: proto_inv_def conn_inv_def)
    show ?thesis
    proof (cases "d = c")
      case True
      then show ?thesis
        using ms assms(2) written_snoc [of env ms "cl_conns s c" m]
        by (auto simp: conn_inv_def neutral_def protocol_append intro!: exI [of _ "ms @ [m]"])
    next
      case False
      then show ?thesis using ms by (auto simp: conn_inv_def)
    qed
  qed
  then show ?thesis using assms(1) by (simp add: proto_inv_def)
qed

text \<open>
  A registration message on the current connection: the client has to record what it
  announced whenever the connection survived.
\<close>

lemma proto_inv_announce:
  assumes "proto_inv env s" and "cl_server s = Some c \<longrightarrow> allowed (ce_me env) (cl_registered_ad s) m"
    and "cl_conns t = cl_conns (send_or_drop env m s)" and "cl_server t = cl_server (send_or_drop env m s)"
    and "cl_server t \<noteq> None \<longrightarrow> cl_registered_ad t = announces m (cl_registered_ad s)
      \<and> cl_hosting_registered t = (cl_registered_ad t \<noteq> None)"
    and "cl_server s = Some c \<or> cl_server s = None"
  shows "proto_inv env t"
proof -
  have "conn_inv env t d" for d
  proof -
    obtain ms where ms: "written env ms (cl_conns s d)" "protocol (ce_me env) None ms"
        "cl_server s = Some d \<longrightarrow> announced ms = cl_registered_ad s"
      using assms(1) by (auto simp: proto_inv_def conn_inv_def)
    show ?thesis
    proof (cases "cl_server s = Some d")
      case True
      then have "d = c" using assms(6) by auto
      then have "allowed (ce_me env) (announced ms) m" using True ms(3) assms(2) by simp
      then have "protocol (ce_me env) None (ms @ [m])" using ms(2) by (simp add: protocol_append)
      moreover have "written env (ms @ [m]) (cl_conns t d)"
        using written_snoc [OF ms(1), of m] True assms(3)
        by (auto simp: send_or_drop_def case_prod_beta)
      ultimately show ?thesis
        using ms(3) True assms(5) unfolding conn_inv_def by (intro exI [of _ "ms @ [m]"]) auto
    next
      case False
      then have "cl_server t \<noteq> Some d" using send_or_drop_server [of env m s] assms(4) by auto
      moreover have "cl_conns t d = cl_conns s d"
        using assms(3) False by (auto simp: send_or_drop_def case_prod_beta split: option.splits)
      ultimately show ?thesis using ms by (auto simp: conn_inv_def)
    qed
  qed
  then show ?thesis using assms(5) by (simp add: proto_inv_def)
qed

lemma proto_inv_connected:
  assumes "proto_inv env s" and "wbuf w = []"
  shows "proto_inv env (connected now w s)"
proof -
  have "conn_inv env (connected now w s) c" for c
  proof (cases "c = cl_next s")
    case True
    then show ?thesis
      using written_Nil [OF assms(2), of env] by (auto simp: conn_inv_def connected_def Let_def intro!: exI [of _ "[]"])
  next
    case False
    then show ?thesis using assms(1) by (auto simp: proto_inv_def conn_inv_def connected_def Let_def)
  qed
  then show ?thesis by (simp add: proto_inv_def connected_def Let_def)
qed

lemma proto_inv_unregister:
  assumes "proto_inv env s"
  shows "proto_inv env (unregister env s)"
proof (cases "cl_hosting_registered s")
  case True
  let ?t = "(send_or_drop env (UnregisterHost (ce_me env)) s)
      \<lparr>cl_hosting_registered := False, cl_registered_ad := None, cl_local_game_id := None\<rparr>"
  obtain c where c: "cl_server s = Some c \<or> cl_server s = None" by (cases "cl_server s") auto
  have "proto_inv env ?t"
    by (rule proto_inv_announce [OF assms(1) _ _ _ _ c, where m = "UnregisterHost (ce_me env)"])
      (use True assms in \<open>auto simp: proto_inv_def\<close>)
  then show ?thesis using True by (simp add: unregister_def)
qed (use assms in \<open>simp add: unregister_def\<close>)

lemma proto_inv_withdraw [simp]: "proto_inv env (withdraw_adverts env s) = proto_inv env s"
  by (simp add: withdraw_adverts_def)

lemma withdraw_adverts_sel [simp]:
  "cl_server (withdraw_adverts env s) = cl_server s"
  "cl_hosting_registered (withdraw_adverts env s) = cl_hosting_registered s"
  "cl_registered_ad (withdraw_adverts env s) = cl_registered_ad s"
  "cl_server_writer (withdraw_adverts env s) = cl_server_writer s"
  "cl_incoming (withdraw_adverts env s) = cl_incoming s"
  "cl_reader_task (withdraw_adverts env s) = cl_reader_task s"
  "cl_readers (withdraw_adverts env s) = cl_readers s"
  "cl_aborted (withdraw_adverts env s) = cl_aborted s"
  "cl_next (withdraw_adverts env s) = cl_next s"
  "cl_local_game_id (withdraw_adverts env s) = cl_local_game_id s"
  "cl_conns (withdraw_adverts env s) = cl_conns s"
  by (simp_all add: withdraw_adverts_def)

lemma proto_inv_game_hosting:
  assumes "proto_inv env s"
  shows "proto_inv env (game_hosting env world s)"
proof -
  define s1 where "s1 = (case world of Some (game_id, _) \<Rightarrow> s\<lparr>cl_local_game_id := Some game_id\<rparr> | None \<Rightarrow> s)"
  define ad where "ad = (case world of Some (_, ad) \<Rightarrow> ad | None \<Rightarrow> fallback_ad env)"
  define s3 where "s3 = (withdraw_adverts env s1)\<lparr>cl_adverts :=
      update_host (ce_codec env) (ce_me env) ad (cl_adverts (withdraw_adverts env s1))\<rparr>"
  define m where "m = (if cl_hosting_registered s3 then UpdateHost \<lparr>sender_id = ce_me env, ad_data = ad\<rparr>
      else RegisterHost \<lparr>sender_id = ce_me env, ad_data = ad\<rparr>)"
  have s1: "proto_inv env s1" using assms by (auto simp: s1_def split: option.splits)
  then have s3: "proto_inv env s3" by (simp add: s3_def)
  obtain c where c: "cl_server s3 = Some c \<or> cl_server s3 = None" by (cases "cl_server s3") auto
  let ?s4 = "send_or_drop env m s3"
  have "proto_inv env (?s4\<lparr>cl_hosting_registered := (cl_server ?s4 \<noteq> None),
      cl_registered_ad := (if cl_server ?s4 \<noteq> None then Some ad else None)\<rparr>)"
    by (rule proto_inv_announce [OF s3 _ _ _ _ c, where m = m])
      (use s3 in \<open>auto simp: proto_inv_def m_def\<close>)
  moreover have "game_hosting env world s =
      (if \<not> (\<not> cl_hosting_registered s1 \<or> cl_registered_ad s1 \<noteq> Some ad) then s1\<lparr>cl_pc := AtPing\<rparr>
       else ?s4\<lparr>cl_hosting_registered := (cl_server ?s4 \<noteq> None),
          cl_registered_ad := (if cl_server ?s4 \<noteq> None then Some ad else None), cl_pc := AtPing\<rparr>)"
    unfolding game_hosting_def Let_def s1_def [symmetric] ad_def [symmetric] s3_def [symmetric] m_def [symmetric]
    by (rule refl)
  ultimately show ?thesis using s1 by (simp split: if_split)
qed

lemma proto_inv_fetch_failed [intro]: "proto_inv env s \<Longrightarrow> proto_inv env (fetch_failed s)"
  unfolding fetch_failed_def by simp blast

lemma proto_inv_game_browsing:
  "proto_inv env s \<Longrightarrow> proto_inv env (game_browsing env now s)"
  using proto_inv_unregister [of env s]
  by (auto simp: game_browsing_def fetch_request_def Let_def case_prod_beta intro!: proto_inv_write_neutral split: option.splits)

lemma proto_inv_send_neutral:
  "proto_inv env s \<Longrightarrow> neutral (ce_me env) m \<Longrightarrow> proto_inv env (send_or_drop env m s)"
  by (auto simp: send_or_drop_def case_prod_beta intro!: proto_inv_write_neutral split: option.splits)

lemma proto_inv_forward_signal:
  "proto_inv env s \<Longrightarrow> proto_inv env (forward_signal env target signal s)"
  by (auto simp: forward_signal_def Let_def intro!: proto_inv_write_neutral split: option.splits)

lemma proto_inv_reader_message: "proto_inv env s \<Longrightarrow> proto_inv env (fst (reader_message env c now msg s))"
  by (cases msg) (simp_all add: reader_message_def Let_def)

lemma proto_inv_reap: "proto_inv env s \<Longrightarrow> proto_inv env (reap_reader s)"
  by (simp add: reap_reader_def split: option.split)

lemma proto_inv_connection_phase:
  "proto_inv env s \<Longrightarrow> (\<And>w. connect = Ok w \<Longrightarrow> wbuf w = []) \<Longrightarrow>
    proto_inv env (connection_phase now connect s)"
  using proto_inv_reap [of env s]
  by (auto simp: connection_phase_def Let_def intro!: proto_inv_connected split: sum.splits)

text \<open>The outcomes of a turn of the wait.\<close>

lemma fetch_turn_cases:
  obtains (failed) "fetch_turn env h s = fetch_failed s"
  | (idle) "fetch_turn env h s = s"
  | (skipped) ch where "fetch_turn env h s = s\<lparr>cl_chans := ch\<rparr>"
  | (got) ch hosts where "fetch_turn env h s = fetched env h hosts (s\<lparr>cl_chans := ch\<rparr>)"
proof (cases "cl_incoming s")
  case (Some c)
  obtain r ch where r: "chan_try_recv (cl_chans s c) = (r, ch)" by fastforce
  show ?thesis
  proof (cases r)
    case (Some msg)
    then show ?thesis using \<open>cl_incoming s = Some c\<close> r that(3,4) by (cases msg) (simp_all add: fetch_turn_def)
  qed (use Some r that(1,2) in \<open>cases "c \<in> set (cl_readers s) \<union> set (cl_aborted s)"; simp add: fetch_turn_def\<close>)
qed (use that(1) in \<open>simp add: fetch_turn_def\<close>)

lemma proto_inv_fetch_turn: "proto_inv env s \<Longrightarrow> proto_inv env (fetch_turn env h s)"
  by (cases rule: fetch_turn_cases [of env h s]) (auto simp: fetched_def Let_def)

lemma proto_inv_step: "proto_inv env s \<Longrightarrow> client_step env s e t \<Longrightarrow> proto_inv env t"
  by (erule client_stepE)
    (auto simp: game_phase_def game_closed_def heartbeat_def fetch_timeout_def reader_end_def reader_cancelled_def
      intro!: proto_inv_connection_phase proto_inv_game_hosting proto_inv_game_browsing proto_inv_unregister
        proto_inv_fetch_turn proto_inv_send_neutral proto_inv_reader_message proto_inv_forward_signal
      split: game_state.splits prod.splits)

subsection \<open>The handles agree\<close>

lemma handle_inv_send_or_drop:
  "handle_inv s \<Longrightarrow> handle_inv ((send_or_drop env m s)\<lparr>cl_pc := AtTop\<rparr>)"
  "handle_inv s \<Longrightarrow> handle_inv ((send_or_drop env m s)\<lparr>cl_pc := AtPing\<rparr>)"
  using send_or_drop_server [of env m s] by (auto simp: handle_inv_def)

lemma unregister_sel [simp]:
  "cl_server_writer (unregister env s) = cl_server_writer s"
  "cl_incoming (unregister env s) = cl_incoming s"
  "cl_reader_task (unregister env s) = cl_reader_task s"
  "cl_readers (unregister env s) = cl_readers s"
  "cl_aborted (unregister env s) = cl_aborted s"
  "cl_next (unregister env s) = cl_next s"
  "cl_adverts (unregister env s) = cl_adverts s"
  "cl_advertised_count (unregister env s) = cl_advertised_count s"
  by (simp_all add: unregister_def)

lemma unregister_server: "cl_server (unregister env s) = None \<or> cl_server (unregister env s) = cl_server s"
  using send_or_drop_server by (auto simp: unregister_def)

lemma game_hosting_sel:
  "cl_server_writer (game_hosting env world s) = cl_server_writer s"
  "cl_incoming (game_hosting env world s) = cl_incoming s"
  "cl_reader_task (game_hosting env world s) = cl_reader_task s"
  "cl_readers (game_hosting env world s) = cl_readers s"
  "cl_aborted (game_hosting env world s) = cl_aborted s"
  "cl_next (game_hosting env world s) = cl_next s"
  "cl_pc (game_hosting env world s) = AtPing"
  by (auto simp: game_hosting_def Let_def split: option.splits)

lemma send_or_drop_server': "cl_server s = c \<Longrightarrow>
    cl_server (send_or_drop env m s) = None \<or> cl_server (send_or_drop env m s) = c"
  using send_or_drop_server [of env m s] by auto

lemma game_hosting_server:
  "cl_server (game_hosting env world s) = None \<or> cl_server (game_hosting env world s) = cl_server s"
  unfolding game_hosting_def Let_def
  by (cases world) (simp_all add: send_or_drop_server' case_prod_beta)

lemma handle_inv_game_phase:
  "handle_inv s \<Longrightarrow> handle_inv (game_phase env now detected s)"
  using unregister_server [of env s] game_hosting_sel [of env "snd detected" s] game_hosting_server [of env "snd detected" s]
  by (cases detected; cases "fst detected")
    (auto simp: handle_inv_def game_phase_def game_closed_def game_browsing_def fetch_request_def fetch_failed_def Let_def
      case_prod_beta split: option.splits)

lemma handle_inv_connection_phase: "handle_inv s \<Longrightarrow> handle_inv (connection_phase now connect s)"
  by (auto simp: handle_inv_def connection_phase_def reap_reader_def connected_def Let_def
      split: option.splits sum.splits)

lemma handle_inv_step:
  assumes "handle_inv s" and "client_step env s e t"
  shows "handle_inv t"
  using assms(2)
proof cases
  case (cs_fetch d h)
  then show ?thesis
    using assms(1)
    by (cases rule: fetch_turn_cases [of env h s]) (auto simp: handle_inv_def fetched_def fetch_failed_def Let_def)
next
  case (cs_heartbeat now)
  then show ?thesis
    using assms(1) handle_inv_send_or_drop [OF assms(1), of env Ping] by (auto simp: handle_inv_def heartbeat_def)
next
  case (cs_reader_message c now msg)
  then show ?thesis using assms(1) by (cases msg) (auto simp: handle_inv_def reader_message_def Let_def)
next
  case (cs_signal target signal)
  then show ?thesis
    using assms(1) by (auto simp: handle_inv_def forward_signal_def Let_def split: option.splits)
next
  case (cs_connection connect now)
  then show ?thesis using assms(1) handle_inv_connection_phase by blast
next
  case (cs_game now detected)
  then show ?thesis using assms(1) handle_inv_game_phase by blast
next
  case (cs_fetch_timeout deadline now)
  then show ?thesis using assms(1) by (simp add: handle_inv_def fetch_timeout_def fetch_failed_def)
next
  case (cs_reader_end c)
  then show ?thesis using assms(1) by (simp add: handle_inv_def reader_end_def)
next
  case (cs_reader_cancelled c)
  then show ?thesis using assms(1) by (simp add: handle_inv_def reader_cancelled_def)
qed

subsection \<open>The machine keeps the invariant\<close>

lemma coherent_withdraw: "coherent (ce_codec env) (cl_adverts s) \<Longrightarrow>
    coherent (ce_codec env) (cl_adverts (withdraw_adverts env s))"
  by (auto simp: withdraw_adverts_def)

lemma coherent_game_hosting: "coherent (ce_codec env) (cl_adverts s) \<Longrightarrow>
    coherent (ce_codec env) (cl_adverts (game_hosting env world s))"
  by (auto simp: game_hosting_def Let_def update_host_def intro!: coherent_advertise coherent_withdraw
      split: option.splits)

lemma adverts_connection_phase [simp]: "cl_adverts (connection_phase now connect s) = cl_adverts s"
  by (auto simp: connection_phase_def reap_reader_def connected_def Let_def split: option.splits sum.splits)

lemma coherent_step:
  assumes "coherent (ce_codec env) (cl_adverts s)" and "client_step env s e t"
  shows "coherent (ce_codec env) (cl_adverts t)"
  using assms(2)
proof cases
  case (cs_game now detected)
  then show ?thesis
    using assms(1) coherent_withdraw [of env "unregister env s"] coherent_game_hosting [OF assms(1)]
    by (cases detected; cases "fst detected")
      (auto simp: game_phase_def game_closed_def game_browsing_def fetch_request_def fetch_failed_def Let_def case_prod_beta
        split: option.splits)
next
  case (cs_fetch d h)
  then show ?thesis
    using assms(1) by (cases rule: fetch_turn_cases [of env h s]) (auto simp: fetched_def fetch_failed_def Let_def)
next
  case (cs_reader_message c now msg)
  then show ?thesis using assms(1) by (cases msg) (auto simp: reader_message_def Let_def)
next
  case (cs_signal target signal)
  then show ?thesis using assms(1) by (auto simp: forward_signal_def Let_def split: option.splits)
qed (use assms(1) in \<open>auto simp: fetch_timeout_def fetch_failed_def heartbeat_def reader_end_def reader_cancelled_def\<close>)

interpretation client_sys: invariant_system client_init "client_step env" "client_inv env" for env
proof unfold_locales
  fix s assume "client_init s"
  then show "client_inv env s"
    by (auto simp: client_init_def client_start_def client_inv_def proto_inv_def conn_inv_def handle_inv_def
        intro!: exI [of _ "[]"] written_Nil)
next
  fix s e t assume "client_inv env s" and "client_step env s e t"
  then show "client_inv env t"
    using proto_inv_step handle_inv_step coherent_step unfolding client_inv_def by blast
qed

end
