(* ===== verification/Client_Boot.thy ===== *)
theory Client_Boot
  imports Platform_Select Client_Machine
begin

text \<open>
  The start of the node client (\<open>main\<close> of \<open>examples/client/client.rs\<close>): the discovery service
  on a socket of the platform, its heartbeat, and the state the tasks begin with. An error
  of the service ends the program.
\<close>

definition client_boot ::
  "(socket_addr \<Rightarrow> ('s, 'e) result) \<Rightarrow> ('e \<Rightarrow> rstr) \<Rightarrow> ('s, 't, 'c, 'l) lan_api \<Rightarrow> u64 \<Rightarrow> millis
     \<Rightarrow> ('l discovery_service \<times> client_state, core_error) result" where
  "client_boot create_udp_socket to_string la my_network_id now =
     (case discovery_new create_udp_socket to_string la my_network_id default_discovery_config of
        Inl e \<Rightarrow> Err e
      | Inr discovery \<Rightarrow> Ok (discovery\<lparr>ds_life := lc_start (ds_life discovery)\<rparr>, client_start now))"

text \<open>
  A client that starts has one heartbeat, an empty and coherent advertised set, which is the
  one the main loop works on, and is in an initial state of the client machine.
\<close>

lemma client_boot_ok:
  assumes "client_boot create to_string la me now = Ok (ds, s)"
  shows "client_init s \<and> lc_running (ds_life ds) = 1 \<and> cl_adverts s = ds_advertised ds
    \<and> coherent nc (cl_adverts s) \<and> ds_config ds = default_discovery_config"
proof -
  obtain ds0 where new: "discovery_new create to_string la me default_discovery_config = Ok ds0"
    and ds: "ds = ds0\<lparr>ds_life := lc_start (ds_life ds0)\<rparr>" "s = client_start now"
    using assms by (auto simp: client_boot_def split: sum.splits)
  have "ds_advertised ds0 = hm_new" "ds_life ds0 = lc_new"
    using new by (auto simp: discovery_new_def with_socket_def split: sum.splits)
  then show ?thesis
    using discovery_new_fresh [OF new, of nc] ds
    by (auto simp: client_init_def client_start_def lc_start_def lc_new_def)
qed

text \<open>
  The client starts alike on every platform: it ends with the printed error of the
  first of the four socket calls that fails; otherwise it ends with the first error of
  tokio or of the LAN signaling, and without one it runs.
\<close>

lemma client_boot_on_every_platform:
  "client_boot (platform_create_udp_socket os so) display_platform_error la me now =
     (case new_udp_socket so (bind_addr default_discovery_config) of
        Inl e \<Rightarrow> Err (Platform (lit ''io error: '' @ io_text e))
      | Inr socket \<Rightarrow>
          (case with_socket la me default_discovery_config socket of
             Inl e \<Rightarrow> Err e
           | Inr discovery \<Rightarrow> Ok (discovery\<lparr>ds_life := lc_start (ds_life discovery)\<rparr>, client_start now)))"
  by (simp add: client_boot_def discovery_new_on_every_platform split: sum.split del: lit_Cons)

section \<open>The address of the server\<close>

lemma iter_position_first:
  "\<forall>y\<in>set pre. \<not> P y \<Longrightarrow> P x \<Longrightarrow> iter_position P (pre @ x # post) = Some (length pre)"
  by (induction pre) simp_all

lemma iter_position_none: "\<forall>y\<in>set xs. \<not> P y \<Longrightarrow> iter_position P xs = None"
  by (induction xs) simp_all

lemma find_first: "\<forall>y\<in>set pre. \<not> P y \<Longrightarrow> P x \<Longrightarrow> List.find P (pre @ x # post) = Some x"
  by (induction pre) simp_all

text \<open>
  The value of the first \<open>--server\<close> wins; without the option, the first argument that is not
  an option; without one, the environment, unless it is empty; else the default.
\<close>

lemma resolve_server_addr_order:
  "lit ''--server'' \<notin> set pre \<Longrightarrow> resolve_server_addr (pre @ lit ''--server'' # addr # post) env_var = addr"
  "lit ''--server'' \<notin> set (prog # opts @ addr # post) \<Longrightarrow> \<forall>opt\<in>set opts. starts_with opt (lit ''-'') \<Longrightarrow>
    \<not> starts_with addr (lit ''-'') \<Longrightarrow> resolve_server_addr (prog # opts @ addr # post) env_var = addr"
  "lit ''--server'' \<notin> set (prog # opts) \<Longrightarrow> \<forall>opt\<in>set opts. starts_with opt (lit ''-'') \<Longrightarrow>
    resolve_server_addr (prog # opts) env_var =
      (case env_var of Some addr \<Rightarrow> if addr = [] then DEFAULT_SERVER_ADDR else addr | None \<Rightarrow> DEFAULT_SERVER_ADDR)"
proof -
  assume "lit ''--server'' \<notin> set pre"
  then have "iter_position (\<lambda>a. a = lit ''--server'') (pre @ lit ''--server'' # addr # post) = Some (length pre)"
    by (intro iter_position_first) auto
  then show "resolve_server_addr (pre @ lit ''--server'' # addr # post) env_var = addr"
    unfolding resolve_server_addr_def by (simp add: iter_nth_def nth_append del: lit_Cons)
next
  assume no: "lit ''--server'' \<notin> set (prog # opts @ addr # post)"
    and opts: "\<forall>opt\<in>set opts. starts_with opt (lit ''-'')" "\<not> starts_with addr (lit ''-'')"
  have "iter_position (\<lambda>a. a = lit ''--server'') (prog # opts @ addr # post) = None"
    using no by (intro iter_position_none) auto
  moreover have "List.find (\<lambda>a. \<not> starts_with a (lit ''-'')) (opts @ addr # post) = Some addr"
    using opts by (intro find_first) auto
  ultimately show "resolve_server_addr (prog # opts @ addr # post) env_var = addr"
    unfolding resolve_server_addr_def by (simp del: lit_Cons iter_position.simps)
next
  assume no: "lit ''--server'' \<notin> set (prog # opts)" and opts: "\<forall>opt\<in>set opts. starts_with opt (lit ''-'')"
  have "iter_position (\<lambda>a. a = lit ''--server'') (prog # opts) = None"
    using no by (intro iter_position_none) auto
  moreover have "List.find (\<lambda>a. \<not> starts_with a (lit ''-'')) opts = None"
    using opts by (simp add: find_None_iff del: lit_Cons)
  ultimately show "resolve_server_addr (prog # opts) env_var =
      (case env_var of Some addr \<Rightarrow> if addr = [] then DEFAULT_SERVER_ADDR else addr | None \<Rightarrow> DEFAULT_SERVER_ADDR)"
    unfolding resolve_server_addr_def by (simp del: lit_Cons iter_position.simps split: option.split)
qed

end
