(* ===== verification/Discovery_Progress.thy ===== *)
theory Discovery_Progress
  imports Discovery_Lifecycle Progress
begin

text \<open>
  The end of the heartbeat of the discovery service: once the token is cancelled it stays
  so, and a heartbeat task that is scheduled fairly ends.
\<close>

lemma cancelled_stays: "lc_step s e t \<Longrightarrow> lc_cancelled s \<Longrightarrow> lc_cancelled t"
  by (auto elim!: lc_stepE simp: machine_defs)

definition stopping :: "lifecycle \<Rightarrow> bool" where
  "stopping s \<longleftrightarrow> lc_inv s \<and> lc_cancelled s"

lemma stopping_step:
  assumes "stopping s" and "lc_running s \<noteq> 0" and "lc_step s e t"
  shows "stopping t \<and> lc_running t \<le> lc_running s \<and> (e = EvExit \<longrightarrow> lc_running t < lc_running s)"
proof -
  have "stopping t" using assms lifecycle_sys.inv_step cancelled_stays by (auto simp: stopping_def)
  moreover have "lc_slot s" using assms(1,2) by (auto simp: stopping_def lc_inv_def)
  then have "lc_running t \<le> lc_running s \<and> (e = EvExit \<longrightarrow> lc_running t < lc_running s)"
    using assms(2,3) by (auto elim!: lc_stepE simp: machine_defs)
  ultimately show ?thesis by blast
qed

interpretation stop_progress:
  leads_to lc_step "\<lambda>e. e = EvExit" stopping "\<lambda>s. lc_running s = 0" lc_running
proof unfold_locales
  fix s assume "stopping s" and "lc_running s \<noteq> 0"
  then show "\<exists>e t. e = EvExit \<and> lc_step s e t"
    using lc_step.exit [of s] by (auto simp: stopping_def)
qed (use stopping_step in blast)+

text \<open>
  C32: \<open>stop\<close> ends the heartbeat: on every infinite run on which a heartbeat task that may
  exit does so eventually, no heartbeat runs at some moment after the cancellation, so the
  join \<open>stop\<close> waits for succeeds. Since nothing resets the token, this holds again after
  every later \<open>start\<close>.
\<close>

theorem stop_ends_heartbeat:
  assumes "lc_init (ss 0)" and "infinite_run lc_step ss es" and "weakly_fair lc_step (\<lambda>e. e = EvExit) ss es"
    and "es k = EvStopCancel" and "k < i"
  shows "\<exists>j\<ge>i. lc_running (ss j) = 0"
proof -
  have "lc_step (ss k) EvStopCancel (ss (Suc k))" using infinite_run_step [OF assms(2), of k] assms(4) by simp
  then have c: "lc_cancelled (ss (Suc k))" by (auto elim!: lc_stepE simp: machine_defs)
  have "lc_cancelled (ss i)"
    using Suc_leI [OF assms(5)]
    by (induction i rule: dec_induct) (use c cancelled_stays [OF infinite_run_step [OF assms(2)]] in blast)+
  moreover have "lc_inv (ss i)"
    using lifecycle_sys.inv_reachable [OF infinite_run_reachable [of lc_init, OF assms(1,2)]] by blast
  ultimately show ?thesis using stop_progress.reaches [OF assms(2,3)] by (simp add: stopping_def)
qed

text \<open>A service that is started, stopped, and started and stopped again for ever.\<close>

definition stopped_life :: lifecycle where
  "stopped_life = lc_new\<lparr>lc_cancelled := True\<rparr>"

definition life :: "nat \<Rightarrow> lifecycle" where
  "life i = (if i = 0 then lc_new else
     [stopped_life, lc_start stopped_life, stopped_life\<lparr>lc_slot := True\<rparr>] ! ((i - 1) mod 3))"

definition life_event :: "nat \<Rightarrow> lc_event" where
  "life_event i = (if i = 0 then EvStopCancel else [EvStart, EvExit, EvStopJoin] ! ((i - 1) mod 3))"

lemma life_run: "infinite_run lc_step life life_event"
  unfolding infinite_run_def
proof
  fix i
  show "lc_step (life i) (life_event i) (life (Suc i))"
  proof (cases i)
    case 0
    then show ?thesis
      using lc_step.stop_cancel [of lc_new] by (simp add: life_def life_event_def stopped_life_def lc_new_def machine_defs)
  next
    case (Suc n)
    consider "n mod 3 = 0" | "n mod 3 = 1" | "n mod 3 = 2" by linarith
    then show ?thesis
    proof cases
      case 1
      then have "Suc n mod 3 = 1" by presburger
      with 1 Suc show ?thesis
        using lc_step.start [of stopped_life] by (simp add: life_def life_event_def stopped_life_def lc_new_def)
    next
      case 2
      then have "Suc n mod 3 = 2" by presburger
      with 2 Suc show ?thesis
        using lc_step.exit [of "lc_start stopped_life"]
        by (simp add: life_def life_event_def stopped_life_def lc_new_def machine_defs)
    next
      case 3
      then have "Suc n mod 3 = 0" by presburger
      with 3 Suc show ?thesis
        using lc_step.stop_join [of "stopped_life\<lparr>lc_slot := True\<rparr>"]
        by (simp add: life_def life_event_def stopped_life_def lc_new_def machine_defs)
    qed
  qed
qed

lemma life_fair: "weakly_fair lc_step (\<lambda>e. e = EvExit) life life_event"
  unfolding weakly_fair_def
proof (intro allI impI)
  fix i :: nat
  have "(3 * i + 1) mod 3 = 1" by presburger
  then show "\<exists>j\<ge>i. life_event j = EvExit" by (intro exI [of _ "3 * i + 2"]) (simp add: life_event_def)
qed

theorem stop_ends_heartbeat_witness: "lc_running (life 2) = 1 \<and> (\<exists>j\<ge>2. lc_running (life j) = 0)"
proof -
  have "lc_init (life 0)" by (simp add: lc_init_def life_def)
  moreover have "life_event 0 = EvStopCancel" by (simp add: life_event_def)
  moreover have "lc_running (life 2) = 1" by (simp add: life_def stopped_life_def lc_start_def lc_new_def)
  ultimately show ?thesis using stop_ends_heartbeat [OF _ life_run life_fair, of 0 2] by simp
qed

end
