(* ===== verification/Server.thy ===== *)
theory Server
  imports Net Host_Registry Rust_HashMap Rust_Channel
begin

text \<open>
  The rendezvous server (\<open>examples/server/main.rs\<close>): the registry every connection shares,
  the handler of each client message, and the cleanup when a connection ends. The handler
  of a message takes the registry lock several times; \<open>first_section\<close> is what it does
  under the first lock, the type \<open>pending\<close> is what it has still to do, and \<open>next_section\<close>
  is what it does under each further lock. \<open>handle_message\<close> is the whole handler when
  nothing interferes. The functions that iterate over a hash map take its hasher.
\<close>

section \<open>Constants\<close>

definition BIND_ADDR :: rstr where
  "BIND_ADDR = lit ''0.0.0.0:25000''"

definition CLIENT_IDLE_TIMEOUT :: millis where
  "CLIENT_IDLE_TIMEOUT = 45000"

text \<open>The address to listen on: the first argument, or the default.\<close>

definition server_bind_addr :: "rstr list \<Rightarrow> rstr" where
  "server_bind_addr args = (case iter_nth 1 args of Some bind \<Rightarrow> bind | None \<Rightarrow> BIND_ADDR)"

section \<open>State\<close>

type_synonym client_handle = "server_message channel"

record registry =
  reg_clients :: "(socket_addr, client_handle) hashmap"
  reg_hosts :: "(u64, socket_addr) hashmap"
  reg_host_records :: "(u64, advertised_server) hashmap"
  reg_sessions :: "(u64, socket_addr \<times> socket_addr) hashmap"
  reg_next_session_id :: u64

definition registry_default :: registry where
  "registry_default =
     \<lparr>reg_clients = hm_new, reg_hosts = hm_new, reg_host_records = hm_new,
      reg_sessions = hm_new, reg_next_session_id = 0\<rparr>"

text \<open>The registry when the accept loop starts.\<close>

definition registry_start :: registry where
  "registry_start = registry_default\<lparr>reg_next_session_id := 1\<rparr>"

section \<open>Handling a message\<close>

definition send_to :: "socket_addr \<Rightarrow> server_message \<Rightarrow> registry \<Rightarrow> registry" where
  "send_to addr msg reg =
     (case hm_get (reg_clients reg) addr of
        Some tx \<Rightarrow> reg\<lparr>reg_clients := hm_insert addr (snd (chan_send msg tx)) (reg_clients reg)\<rparr>
      | None \<Rightarrow> reg)"

datatype pending =
  Sends "(socket_addr \<times> server_message) list"
| AllocSession socket_addr u64 \<comment> \<open>host address, joiner network id\<close>

fun first_section :: "u64 hasher \<Rightarrow> socket_addr \<Rightarrow> client_message \<Rightarrow> registry \<Rightarrow> registry \<times> pending" where
  "first_section h addr Ping reg = (reg, Sends [(addr, Pong)])"
| "first_section h addr (RegisterHost server) reg =
     (reg\<lparr>reg_hosts := hm_insert (sender_id server) addr (reg_hosts reg),
          reg_host_records := hm_insert (sender_id server) server (reg_host_records reg)\<rparr>,
      Sends [(addr, Registered (sender_id server))])"
| "first_section h addr (UpdateHost server) reg =
     (if hm_get (reg_hosts reg) (sender_id server) = Some addr
      then (reg\<lparr>reg_host_records := hm_insert (sender_id server) server (reg_host_records reg)\<rparr>, Sends [])
      else (reg, Sends []))"
| "first_section h addr (UnregisterHost sid) reg =
     (if hm_get (reg_hosts reg) sid = Some addr
      then (reg\<lparr>reg_hosts := hm_remove sid (reg_hosts reg),
                reg_host_records := hm_remove sid (reg_host_records reg)\<rparr>, Sends [])
      else (reg, Sends []))"
| "first_section h addr ListHosts reg =
     (reg, Sends [(addr, HostList (hm_values h (reg_host_records reg)))])"
| "first_section h addr (ConnectRequest target joiner) reg =
     (case hm_get (reg_hosts reg) target of
        Some host_addr \<Rightarrow> (reg, AllocSession host_addr joiner)
      | None \<Rightarrow> (reg, Sends [(addr, ErrorMessage (lit ''no such host: '' @ fmt_alt_x target))]))"
| "first_section h addr (ClientSignal target conn joiner payload) reg =
     (if target \<noteq> 0
      then case hm_get (reg_hosts reg) target of
             Some host \<Rightarrow>
               (reg\<lparr>reg_sessions := hm_insert conn (addr, host) (reg_sessions reg)\<rparr>,
                Sends [(host, ServerSignal conn joiner payload)])
           | None \<Rightarrow> (reg, Sends [])
      else case hm_get (reg_sessions reg) conn of
             Some (j, _) \<Rightarrow> (reg, Sends [(j, ServerSignal conn joiner payload)])
           | None \<Rightarrow> (reg, Sends []))"

fun next_section :: "socket_addr \<Rightarrow> pending \<Rightarrow> registry \<Rightarrow> registry \<times> pending" where
  "next_section addr (Sends []) reg = (reg, Sends [])"
| "next_section addr (Sends ((dest, msg) # rest)) reg = (send_to dest msg reg, Sends rest)"
| "next_section addr (AllocSession host_addr joiner) reg =
     (let i = reg_next_session_id reg
      in (reg\<lparr>reg_next_session_id := i + 1,
              reg_sessions := hm_insert i (addr, host_addr) (reg_sessions reg)\<rparr>,
          Sends [(host_addr, IncomingJoin joiner i), (addr, JoinAccepted i)]))"

fun pending_size :: "pending \<Rightarrow> nat" where
  "pending_size (Sends xs) = length xs"
| "pending_size (AllocSession _ _) = 3"

text \<open>The rest of a handler, when nothing interferes: section after section.\<close>

function run_pending :: "socket_addr \<Rightarrow> pending \<Rightarrow> registry \<Rightarrow> registry" where
  "run_pending addr p reg =
     (if p = Sends [] then reg
      else let (reg', p') = next_section addr p reg in run_pending addr p' reg')"
  by pat_completeness auto
termination
proof (relation "measure (\<lambda>(_, p, _). pending_size p)")
  fix addr p reg x reg' p'
  assume "p \<noteq> Sends []" and "x = next_section addr p reg" and "(reg', p') = x"
  then show "((addr, p', reg'), (addr, p, reg)) \<in> measure (\<lambda>(_, p, _). pending_size p)"
    by (cases "(addr, p, reg)" rule: next_section.cases) (auto simp: Let_def)
qed simp

declare run_pending.simps [simp del]

definition handle_message :: "u64 hasher \<Rightarrow> socket_addr \<Rightarrow> client_message \<Rightarrow> registry \<Rightarrow> registry" where
  "handle_message h addr msg reg =
     (let (reg', p) = first_section h addr msg reg in run_pending addr p reg')"

section \<open>Connections\<close>

text \<open>The start of \<open>handle_client\<close>: a fresh channel under the address of the peer.\<close>

definition client_connected :: "socket_addr \<Rightarrow> registry \<Rightarrow> registry" where
  "client_connected addr reg = reg\<lparr>reg_clients := hm_insert addr chan_new (reg_clients reg)\<rparr>"

text \<open>What the task of a connection does when \<open>handle_client\<close> has returned.\<close>

definition orphaned :: "u64 hasher \<Rightarrow> socket_addr \<Rightarrow> registry \<Rightarrow> u64 list" where
  "orphaned h addr reg = map fst (filter (\<lambda>(_, a). a = addr) (hm_iter h (reg_hosts reg)))"

definition client_disconnected :: "u64 hasher \<Rightarrow> socket_addr \<Rightarrow> registry \<Rightarrow> registry" where
  "client_disconnected h addr reg =
     reg\<lparr>reg_clients := hm_remove addr (reg_clients reg),
         reg_sessions := hm_retain (\<lambda>_ (joiner, host). joiner \<noteq> addr \<and> host \<noteq> addr) (reg_sessions reg),
         reg_hosts := hm_remove_all (orphaned h addr reg) (reg_hosts reg),
         reg_host_records := hm_remove_all (orphaned h addr reg) (reg_host_records reg)\<rparr>"

text \<open>
  The read loop of \<open>handle_client\<close> over the bytes of a connection. Each turn waits for the
  end of the writer task, for a read, or for the idle timeout; \<open>wake i\<close> says which of them
  ends the \<open>i\<close>-th wait. A message is handled before the next wait; the end of the writer,
  the timeout and end of file end the loop with \<open>Ok\<close>, a read error with that error. \<open>hs i\<close>
  is the hasher seen while handling the \<open>i\<close>-th message.
\<close>

datatype wakeup = WriterDead | ReadDone | IdleTimeout

function serve_loop ::
  "(u8 list \<Rightarrow> (client_message, rstr) result) \<Rightarrow> (nat \<Rightarrow> wakeup) \<Rightarrow> (nat \<Rightarrow> u64 hasher) \<Rightarrow> nat \<Rightarrow> socket_addr
     \<Rightarrow> reader \<Rightarrow> registry \<Rightarrow> (unit, core_error) result \<times> registry" where
  "serve_loop from_slice wake hs i addr r reg =
     (case wake i of
        WriterDead \<Rightarrow> (Ok (), reg)
      | IdleTimeout \<Rightarrow> (Ok (), reg)
      | ReadDone \<Rightarrow>
          (case read_message from_slice r of
             (Inl e, r') \<Rightarrow> (Err e, reg)
           | (Inr None, r') \<Rightarrow> (Ok (), reg)
           | (Inr (Some msg), r') \<Rightarrow>
               serve_loop from_slice wake hs (i + 1) addr r' (handle_message (hs i) addr msg reg)))"
  by pat_completeness auto
termination
  by (relation "measure (\<lambda>(_, _, _, _, _, r, _). length (rbuf r))") (auto simp: read_message_shrinks [OF sym])

declare serve_loop.simps [simp del]

definition handle_client ::
  "(u8 list \<Rightarrow> (client_message, rstr) result) \<Rightarrow> (nat \<Rightarrow> wakeup) \<Rightarrow> (nat \<Rightarrow> u64 hasher) \<Rightarrow> socket_addr
     \<Rightarrow> reader \<Rightarrow> registry \<Rightarrow> (unit, core_error) result \<times> registry" where
  "handle_client from_slice wake hs addr r reg =
     serve_loop from_slice wake hs 0 addr r (client_connected addr reg)"

text \<open>The whole task of a connection: \<open>handle_client\<close>, then the cleanup, also after an error.\<close>

definition connection_task ::
  "(u8 list \<Rightarrow> (client_message, rstr) result) \<Rightarrow> (nat \<Rightarrow> wakeup) \<Rightarrow> (nat \<Rightarrow> u64 hasher) \<Rightarrow> u64 hasher
     \<Rightarrow> socket_addr \<Rightarrow> reader \<Rightarrow> registry \<Rightarrow> registry" where
  "connection_task from_slice wake hs h addr r reg =
     client_disconnected h addr (snd (handle_client from_slice wake hs addr r reg))"

section \<open>Evaluation rules\<close>

named_theorems server_simps "what each operation does to each field of the registry"

lemma send_to_fields [simp, server_simps]:
  "reg_hosts (send_to a m reg) = reg_hosts reg"
  "reg_host_records (send_to a m reg) = reg_host_records reg"
  "reg_sessions (send_to a m reg) = reg_sessions reg"
  "reg_next_session_id (send_to a m reg) = reg_next_session_id reg"
  by (auto simp: send_to_def split: option.splits)

lemma get_clients_send_to [server_simps]:
  "hm_get (reg_clients (send_to a m reg)) b =
     (if b = a then map_option (\<lambda>tx. snd (chan_send m tx)) (hm_get (reg_clients reg) a)
      else hm_get (reg_clients reg) b)"
  by (auto simp: send_to_def split: option.splits)

lemma dom_clients_send_to [simp, server_simps]:
  "dom (hm_get (reg_clients (send_to a m reg))) = dom (hm_get (reg_clients reg))"
  by (auto simp: get_clients_send_to dom_def split: if_splits)

lemma hm_ok_clients_send_to [simp, intro]:
  "hm_ok (reg_clients reg) \<Longrightarrow> hm_ok (reg_clients (send_to a m reg))"
  by (auto simp: send_to_def split: option.splits)

abbreviation send_all :: "(socket_addr \<times> server_message) list \<Rightarrow> registry \<Rightarrow> registry" where
  "send_all xs reg \<equiv> fold (\<lambda>(a, m). send_to a m) xs reg"

lemma run_pending_Sends [simp, server_simps]: "run_pending addr (Sends xs) reg = send_all xs reg"
  by (induction xs arbitrary: reg) (auto simp: run_pending.simps)

lemma run_pending_Alloc [simp, server_simps]:
  "run_pending addr (AllocSession host joiner) reg =
     send_all [(host, IncomingJoin joiner (reg_next_session_id reg)),
               (addr, JoinAccepted (reg_next_session_id reg))]
       (reg\<lparr>reg_next_session_id := reg_next_session_id reg + 1,
            reg_sessions := hm_insert (reg_next_session_id reg) (addr, host) (reg_sessions reg)\<rparr>)"
  by (simp add: run_pending.simps [of addr "AllocSession host joiner"] Let_def)

lemma send_all_fields [simp, server_simps]:
  "reg_hosts (send_all xs reg) = reg_hosts reg"
  "reg_host_records (send_all xs reg) = reg_host_records reg"
  "reg_sessions (send_all xs reg) = reg_sessions reg"
  "reg_next_session_id (send_all xs reg) = reg_next_session_id reg"
  by (induction xs arbitrary: reg) (auto simp: case_prod_beta)

lemma set_orphaned:
  "hm_ok (reg_hosts reg) \<Longrightarrow> sid \<in> set (orphaned h addr reg) \<longleftrightarrow> hm_get (reg_hosts reg) sid = Some addr"
  using hm_in_iter [of "reg_hosts reg" sid addr h] by (force simp: orphaned_def)

end
