(* ===== verification/Server_Machine.thy ===== *)
theory Server_Machine
  imports Server
begin

text \<open>
  The rendezvous server as a concurrent machine. Every connection has a task: it serves
  (waits for a message), is busy with the pending sections of a handler, or is leaving
  (its handler returned, the cleanup has not run). A step is one critical section of one
  task, one message taken and written by a writer task, the end of a writer task (its
  write failed, or it was aborted), or a connection that begins or ends; the steps of
  different tasks interleave in any order. A peer address is accepted only while no task
  has this address.
\<close>

section \<open>Invariant of the registry\<close>

definition reg_ok :: "registry \<Rightarrow> bool" where
  "reg_ok reg \<longleftrightarrow> hm_ok (reg_clients reg) \<and> hm_ok (reg_hosts reg) \<and> hm_ok (reg_host_records reg)
     \<and> hm_ok (reg_sessions reg) \<and> dom (hm_get (reg_hosts reg)) = dom (hm_get (reg_host_records reg))
     \<and> (\<forall>k r. hm_get (reg_host_records reg) k = Some r \<longrightarrow> sender_id r = k)"

text \<open>
  \<open>reg_inv A\<close>: the registry is well formed, the connected clients are exactly \<open>A\<close>, and
  every host owner and every joiner of a session is one of them.
\<close>

definition reg_inv :: "socket_addr set \<Rightarrow> registry \<Rightarrow> bool" where
  "reg_inv A reg \<longleftrightarrow> reg_ok reg \<and> dom (hm_get (reg_clients reg)) = A
     \<and> (\<forall>k b. hm_get (reg_hosts reg) k = Some b \<longrightarrow> b \<in> A)
     \<and> (\<forall>k jh. hm_get (reg_sessions reg) k = Some jh \<longrightarrow> fst jh \<in> A)"

lemma dom_hm_insert [simp, hm_simps]: "dom (hm_get (hm_insert k v m)) = insert k (dom (hm_get m))"
  by (auto simp: dom_def)

lemma dom_hm_remove [simp, hm_simps]: "dom (hm_get (hm_remove k m)) = dom (hm_get m) - {k}"
  by (auto simp: dom_def split: if_splits)

lemma dom_hm_remove_all [simp, hm_simps]:
  "dom (hm_get (hm_remove_all ks m)) = dom (hm_get m) - set ks"
  by (auto simp: dom_def split: if_splits)

lemma reg_ok_send_to [simp, intro]: "reg_ok reg \<Longrightarrow> reg_ok (send_to a m reg)"
  by (simp add: reg_ok_def)

lemma reg_ok_default [simp, intro]: "reg_ok registry_default" "reg_ok registry_start"
  by (simp_all add: reg_ok_def registry_default_def registry_start_def)

lemma reg_ok_first_section [intro]:
  "reg_ok reg \<Longrightarrow> reg_ok (fst (first_section h a msg reg))"
  by (cases "(h, a, msg, reg)" rule: first_section.cases)
    (auto simp: reg_ok_def split: option.splits if_splits)

lemma reg_ok_next_section [intro]: "reg_ok reg \<Longrightarrow> reg_ok (fst (next_section a p reg))"
  by (cases "(a, p, reg)" rule: next_section.cases) (auto simp: reg_ok_def Let_def)

lemma reg_ok_send_all [simp, intro]: "reg_ok reg \<Longrightarrow> reg_ok (send_all xs reg)"
  by (induction xs arbitrary: reg) (auto simp: case_prod_beta)

lemma reg_ok_run_pending [intro]: "reg_ok reg \<Longrightarrow> reg_ok (run_pending a p reg)"
proof (cases p)
  case (AllocSession host j)
  assume "reg_ok reg"
  then have "reg_ok (reg\<lparr>reg_next_session_id := reg_next_session_id reg + 1,
      reg_sessions := hm_insert (reg_next_session_id reg) (a, host) (reg_sessions reg)\<rparr>)"
    by (simp add: reg_ok_def)
  then show ?thesis unfolding AllocSession run_pending_Alloc by (rule reg_ok_send_all)
qed simp

lemma reg_ok_handle_message [intro]: "reg_ok reg \<Longrightarrow> reg_ok (handle_message h a msg reg)"
  unfolding handle_message_def by (simp add: case_prod_beta Let_def reg_ok_first_section reg_ok_run_pending)

lemma reg_ok_client_connected [intro]: "reg_ok reg \<Longrightarrow> reg_ok (client_connected a reg)"
  by (simp add: reg_ok_def client_connected_def)

lemma reg_ok_client_disconnected [intro]: "reg_ok reg \<Longrightarrow> reg_ok (client_disconnected h a reg)"
  by (auto simp: reg_ok_def client_disconnected_def split: if_splits)

lemma reg_inv_send_to [simp, intro]: "reg_inv A reg \<Longrightarrow> reg_inv A (send_to a m reg)"
  by (simp add: reg_inv_def)

lemma first_section_clients [simp, server_simps]:
  "reg_clients (fst (first_section h a msg reg)) = reg_clients reg"
  by (cases msg) (auto split: option.splits)

lemma first_section_hosts:
  "hm_get (reg_hosts (fst (first_section h a msg reg))) k = Some b \<Longrightarrow>
    b = a \<or> hm_get (reg_hosts reg) k = Some b"
  by (cases msg) (auto split: option.splits if_splits)

lemma first_section_sessions:
  "hm_get (reg_sessions (fst (first_section h a msg reg))) k = Some jh \<Longrightarrow>
    fst jh = a \<or> hm_get (reg_sessions reg) k = Some jh"
  by (cases msg) (auto split: option.splits if_splits)

lemma next_section_hosts [simp, server_simps]:
  "reg_hosts (fst (next_section a p reg)) = reg_hosts reg"
  "reg_host_records (fst (next_section a p reg)) = reg_host_records reg"
  by (cases "(a, p, reg)" rule: next_section.cases; simp add: Let_def)+

lemma next_section_dom_clients [simp, server_simps]:
  "dom (hm_get (reg_clients (fst (next_section a p reg)))) = dom (hm_get (reg_clients reg))"
  by (cases "(a, p, reg)" rule: next_section.cases) (simp_all add: Let_def)

lemma next_section_sessions:
  "hm_get (reg_sessions (fst (next_section a p reg))) k = Some jh \<Longrightarrow>
    fst jh = a \<or> hm_get (reg_sessions reg) k = Some jh"
  by (cases "(a, p, reg)" rule: next_section.cases) (auto simp: Let_def split: if_splits)

lemma reg_inv_first_section [intro]:
  "reg_inv A reg \<Longrightarrow> a \<in> A \<Longrightarrow> reg_inv A (fst (first_section h a msg reg))"
  unfolding reg_inv_def
  by (metis first_section_clients first_section_hosts first_section_sessions reg_ok_first_section)

lemma reg_inv_next_section [intro]:
  "reg_inv A reg \<Longrightarrow> a \<in> A \<Longrightarrow> reg_inv A (fst (next_section a p reg))"
  unfolding reg_inv_def
  by (metis next_section_dom_clients next_section_hosts(1) next_section_sessions reg_ok_next_section)

lemma reg_inv_client_connected [intro]:
  "reg_inv A reg \<Longrightarrow> reg_inv (insert a A) (client_connected a reg)"
  using reg_ok_client_connected by (auto simp: reg_inv_def client_connected_def)

lemma reg_inv_client_disconnected [intro]:
  assumes "reg_inv A reg"
  shows "reg_inv (A - {a}) (client_disconnected h a reg)"
proof -
  have ok: "reg_ok reg" and hosts: "hm_ok (reg_hosts reg)" and sess: "hm_ok (reg_sessions reg)"
    using assms by (simp_all add: reg_inv_def reg_ok_def)
  have "b \<in> A - {a}" if "hm_get (reg_hosts (client_disconnected h a reg)) k = Some b" for k b
    using that assms set_orphaned [OF hosts, of k h a]
    by (auto simp: client_disconnected_def reg_inv_def split: if_splits)
  moreover have "fst jh \<in> A - {a}"
    if "hm_get (reg_sessions (client_disconnected h a reg)) k = Some jh" for k jh
    using that assms sess
    by (fastforce simp: client_disconnected_def reg_inv_def hm_get_retain_Some)
  moreover have "dom (hm_get (reg_clients (client_disconnected h a reg))) = A - {a}"
    using assms by (simp add: client_disconnected_def reg_inv_def)
  ultimately show ?thesis
    using reg_ok_client_disconnected [OF ok] unfolding reg_inv_def by blast
qed

section \<open>The machine\<close>

datatype task_state = Serving | Busy pending | Leaving

record server_state =
  sv_reg :: registry
  sv_tasks :: "socket_addr \<Rightarrow> task_state option"
  sv_wire :: "socket_addr \<Rightarrow> server_message list" \<comment> \<open>messages written to the peer, in order\<close>

datatype server_event =
  Accept socket_addr
| Receive socket_addr client_message
| Alloc socket_addr
| Deliver socket_addr socket_addr server_message \<comment> \<open>acting task, destination, message\<close>
| WriteOut socket_addr server_message
| WriterStop socket_addr
| Leave socket_addr
| Cleanup socket_addr

definition task_of :: "pending \<Rightarrow> task_state" where
  "task_of p = (if p = Sends [] then Serving else Busy p)"

definition server_init :: "server_state \<Rightarrow> bool" where
  "server_init s \<longleftrightarrow> s = \<lparr>sv_reg = registry_start, sv_tasks = Map.empty, sv_wire = (\<lambda>_. [])\<rparr>"

inductive server_step :: "server_state \<Rightarrow> server_event \<Rightarrow> server_state \<Rightarrow> bool" where
  sv_accept: "sv_tasks s a = None \<Longrightarrow>
    server_step s (Accept a)
      (s\<lparr>sv_reg := client_connected a (sv_reg s), sv_tasks := (sv_tasks s)(a \<mapsto> Serving),
         sv_wire := (sv_wire s)(a := [])\<rparr>)"
| sv_receive: "sv_tasks s a = Some Serving \<Longrightarrow> first_section h a msg (sv_reg s) = (reg', p) \<Longrightarrow>
    server_step s (Receive a msg) (s\<lparr>sv_reg := reg', sv_tasks := (sv_tasks s)(a \<mapsto> task_of p)\<rparr>)"
| sv_alloc: "sv_tasks s a = Some (Busy (AllocSession host j)) \<Longrightarrow>
    next_section a (AllocSession host j) (sv_reg s) = (reg', p) \<Longrightarrow>
    server_step s (Alloc a) (s\<lparr>sv_reg := reg', sv_tasks := (sv_tasks s)(a \<mapsto> task_of p)\<rparr>)"
| sv_deliver: "sv_tasks s a = Some (Busy (Sends ((dest, msg) # rest))) \<Longrightarrow>
    next_section a (Sends ((dest, msg) # rest)) (sv_reg s) = (reg', p) \<Longrightarrow>
    server_step s (Deliver a dest msg) (s\<lparr>sv_reg := reg', sv_tasks := (sv_tasks s)(a \<mapsto> task_of p)\<rparr>)"
| sv_write: "hm_get (reg_clients (sv_reg s)) a = Some c \<Longrightarrow> chan_try_recv c = (Some m, c') \<Longrightarrow>
    server_step s (WriteOut a m)
      (s\<lparr>sv_reg := (sv_reg s)\<lparr>reg_clients := hm_insert a c' (reg_clients (sv_reg s))\<rparr>,
         sv_wire := (sv_wire s)(a := sv_wire s a @ [m])\<rparr>)"
| sv_writer_stop: "hm_get (reg_clients (sv_reg s)) a = Some c \<Longrightarrow>
    server_step s (WriterStop a)
      (s\<lparr>sv_reg := (sv_reg s)\<lparr>reg_clients := hm_insert a (chan_close c) (reg_clients (sv_reg s))\<rparr>\<rparr>)"
| sv_leave: "sv_tasks s a = Some Serving \<Longrightarrow>
    server_step s (Leave a) (s\<lparr>sv_tasks := (sv_tasks s)(a \<mapsto> Leaving)\<rparr>)"
| sv_cleanup: "sv_tasks s a = Some Leaving \<Longrightarrow>
    server_step s (Cleanup a)
      (s\<lparr>sv_reg := client_disconnected h a (sv_reg s), sv_tasks := (sv_tasks s)(a := None)\<rparr>)"

inductive_cases server_stepE: "server_step s e t"

definition server_inv :: "server_state \<Rightarrow> bool" where
  "server_inv s \<longleftrightarrow> reg_inv (dom (sv_tasks s)) (sv_reg s)"

lemma reg_inv_clients_update:
  "reg_inv A reg \<Longrightarrow> a \<in> A \<Longrightarrow> reg_inv A (reg\<lparr>reg_clients := hm_insert a c (reg_clients reg)\<rparr>)"
  by (auto simp: reg_inv_def reg_ok_def)

lemma server_inv_step:
  assumes "server_inv s" and "server_step s e t"
  shows "server_inv t"
  using assms(2)
proof cases
  case (sv_accept a)
  then show ?thesis using assms(1) reg_inv_client_connected by (simp add: server_inv_def)
next
  case (sv_receive a h msg reg' p)
  then have "reg_inv (dom (sv_tasks s)) reg'"
    using assms(1) reg_inv_first_section [of "dom (sv_tasks s)" "sv_reg s" a h msg]
    by (simp add: server_inv_def domI)
  then show ?thesis using sv_receive by (simp add: server_inv_def insert_absorb domI)
next
  case (sv_alloc a host j reg' p)
  then have "reg_inv (dom (sv_tasks s)) reg'"
    using assms(1) reg_inv_next_section [of "dom (sv_tasks s)" "sv_reg s" a "AllocSession host j"]
    by (simp add: server_inv_def domI)
  then show ?thesis using sv_alloc by (simp add: server_inv_def insert_absorb domI)
next
  case (sv_deliver a dest msg rest reg' p)
  then have "reg_inv (dom (sv_tasks s)) reg'"
    using assms(1) reg_inv_next_section [of "dom (sv_tasks s)" "sv_reg s" a "Sends ((dest, msg) # rest)"]
    by (simp add: server_inv_def domI)
  then show ?thesis using sv_deliver by (simp add: server_inv_def insert_absorb domI)
next
  case (sv_write a c m c')
  then have "a \<in> dom (sv_tasks s)" using assms(1) by (auto simp: server_inv_def reg_inv_def)
  then show ?thesis using sv_write assms(1) reg_inv_clients_update by (simp add: server_inv_def)
next
  case (sv_writer_stop a c)
  then have "a \<in> dom (sv_tasks s)" using assms(1) by (auto simp: server_inv_def reg_inv_def)
  then show ?thesis using sv_writer_stop assms(1) reg_inv_clients_update by (simp add: server_inv_def)
next
  case (sv_leave a)
  then show ?thesis using assms(1) by (simp add: server_inv_def insert_absorb domI)
next
  case (sv_cleanup a h)
  then show ?thesis using assms(1) reg_inv_client_disconnected by (simp add: server_inv_def)
qed

interpretation server_sys: invariant_system server_init server_step server_inv
proof unfold_locales
  fix s assume "server_init s"
  then show "server_inv s"
    by (simp add: server_init_def server_inv_def reg_inv_def) (simp add: registry_start_def registry_default_def)
qed (rule server_inv_step)

section \<open>The accept loop\<close>

text \<open>
  One turn of the loop of \<open>main\<close>: a new connection gets its task; an error of \<open>accept\<close>
  leaves \<open>main\<close>, and with it the process.
\<close>

definition accept_turn :: "(socket_addr, io_error) result \<Rightarrow> server_state \<Rightarrow> (server_state, io_error) result" where
  "accept_turn accepted s =
     (case accepted of
        Inr a \<Rightarrow> Ok (s\<lparr>sv_reg := client_connected a (sv_reg s), sv_tasks := (sv_tasks s)(a \<mapsto> Serving),
                        sv_wire := (sv_wire s)(a := [])\<rparr>)
      | Inl e \<Rightarrow> Err e)"

fun accept_loop :: "(socket_addr, io_error) result list \<Rightarrow> server_state \<Rightarrow> (server_state, io_error) result" where
  "accept_loop [] s = Ok s"
| "accept_loop (x # xs) s = (case accept_turn x s of Inl e \<Rightarrow> Err e | Inr t \<Rightarrow> accept_loop xs t)"

text \<open>
  The whole \<open>main\<close>: bind to the address of the arguments, then accept; \<open>bind\<close> is
  \<open>TcpListener::bind\<close>.
\<close>

definition server_start :: server_state where
  "server_start = \<lparr>sv_reg = registry_start, sv_tasks = Map.empty, sv_wire = (\<lambda>_. [])\<rparr>"

definition server_main ::
  "(rstr \<Rightarrow> (unit, io_error) result) \<Rightarrow> rstr list \<Rightarrow> (socket_addr, io_error) result list
     \<Rightarrow> (server_state, io_error) result" where
  "server_main bind args accepts =
     (case bind (server_bind_addr args) of
        Inl e \<Rightarrow> Err e
      | Inr _ \<Rightarrow> accept_loop accepts server_start)"

lemma accept_turn_step:
  "sv_tasks s a = None \<Longrightarrow> \<exists>t. accept_turn (Ok a) s = Ok t \<and> server_step s (Accept a) t"
  using sv_accept [of s a] by (simp add: accept_turn_def)

text \<open>
  The server serves as long as \<open>accept\<close> works, and one failed \<open>accept\<close>, also a passing one,
  ends it for all clients, connected and to come.
\<close>

lemma accept_loop_runs:
  "distinct as \<Longrightarrow> \<forall>a\<in>set as. sv_tasks s a = None \<Longrightarrow>
    \<exists>t. accept_loop (map Ok as) s = Ok t \<and> runs server_step s (map Accept as) t"
proof (induction as arbitrary: s)
  case Nil
  then show ?case by (simp add: runs_nil)
next
  case (Cons a as)
  obtain t where t: "accept_turn (Ok a) s = Ok t" "server_step s (Accept a) t"
    using accept_turn_step [of s a] Cons.prems by auto
  then have "\<forall>b\<in>set as. sv_tasks t b = None"
    using Cons.prems by (auto simp: accept_turn_def)
  then obtain u where "accept_loop (map Ok as) t = Ok u" "runs server_step t (map Accept as) u"
    using Cons by (metis distinct.simps(2))
  then show ?case using t by (auto intro: runs_cons)
qed

lemma server_main_serves:
  assumes "bind (server_bind_addr args) = Ok ()" and "distinct as"
  shows "\<exists>t. server_main bind args (map Ok as) = Ok t \<and> runs server_step server_start (map Accept as) t
    \<and> server_init server_start"
  using accept_loop_runs [OF assms(2), of server_start] assms(1)
  by (simp add: server_main_def) (simp add: server_start_def server_init_def)

lemma accept_error_ends_server:
  "accept_loop (map Ok as @ Err e # later) s = Err e"
  by (induction as arbitrary: s) (simp_all add: accept_turn_def)

end
