(* ===== verification/Server_Properties.thy ===== *)
theory Server_Properties
  imports Server_Machine
begin

text \<open>
  What the rendezvous server guarantees: the registry stays consistent under every
  interleaving, a connection that ends leaves nothing behind, a registration is changed by
  its owner only, and host lists are exact.
\<close>

section \<open>The registry contract\<close>

definition publish_by :: "u64 hasher \<Rightarrow> socket_addr \<Rightarrow> advertised_server \<Rightarrow> registry \<Rightarrow> registry" where
  "publish_by h a server reg = handle_message h a (RegisterHost server) reg"

definition served_hosts :: "u64 hasher \<Rightarrow> registry \<Rightarrow> advertised_server list" where
  "served_hosts h reg = hm_values h (reg_host_records reg)"

lemma publish_by_fields [simp]:
  "reg_hosts (publish_by h a server reg) = hm_insert (sender_id server) a (reg_hosts reg)"
  "reg_host_records (publish_by h a server reg) = hm_insert (sender_id server) server (reg_host_records reg)"
  by (simp_all add: publish_by_def handle_message_def)

lemma in_served_hosts:
  assumes "reg_ok reg"
  shows "r \<in> set (served_hosts h reg) \<longleftrightarrow> hm_get (reg_host_records reg) (sender_id r) = Some r"
proof -
  have "set (served_hosts h reg) = ran (hm_get (reg_host_records reg))"
    using assms by (simp add: served_hosts_def hm_set_values reg_ok_def)
  then show ?thesis using assms by (auto simp: ran_def reg_ok_def)
qed

interpretation rendezvous: host_registry "publish_by h a" "\<lambda>reg. hm_get (reg_host_records reg)"
  "served_hosts h'" reg_ok
  for h a h'
proof unfold_locales
  fix reg server assume "reg_ok reg"
  then show "reg_ok (publish_by h a server reg)" unfolding publish_by_def by blast
next
  fix reg r assume "reg_ok reg"
  then show "r \<in> set (served_hosts h' reg) \<longleftrightarrow> hm_get (reg_host_records reg) (sender_id r) = Some r"
    by (rule in_served_hosts)
qed (simp_all add: reg_ok_def)

section \<open>Runs of one handler\<close>

lemma runs_pending:
  "sv_tasks s a = Some (task_of p) \<Longrightarrow> reg = sv_reg s \<Longrightarrow>
    \<exists>es. runs server_step s es
      (s\<lparr>sv_reg := run_pending a p reg, sv_tasks := (sv_tasks s)(a \<mapsto> Serving)\<rparr>)"
proof (induction a p reg arbitrary: s rule: run_pending.induct)
  case (1 a p reg)
  show ?case
  proof (cases "p = Sends []")
    case True
    then have "s\<lparr>sv_reg := run_pending a p reg, sv_tasks := (sv_tasks s)(a \<mapsto> Serving)\<rparr> = s"
      using "1.prems" by (simp add: task_of_def fun_upd_idem)
    then show ?thesis by (metis runs_nil)
  next
    case False
    obtain reg' p' where n: "next_section a p (sv_reg s) = (reg', p')" by fastforce
    let ?t = "s\<lparr>sv_reg := reg', sv_tasks := (sv_tasks s)(a \<mapsto> task_of p')\<rparr>"
    have busy: "sv_tasks s a = Some (Busy p)" using "1.prems"(1) False by (simp add: task_of_def)
    obtain e where "server_step s e ?t"
      using busy n False sv_alloc sv_deliver
      by (cases "(a, p, reg)" rule: next_section.cases) fastforce+
    moreover have "\<exists>es. runs server_step ?t es
        (?t\<lparr>sv_reg := run_pending a p' reg', sv_tasks := (sv_tasks ?t)(a \<mapsto> Serving)\<rparr>)"
    proof (rule "1.IH" [OF False refl])
      show "(reg', p') = next_section a p reg" using n "1.prems"(2) by simp
    qed simp_all
    then obtain es where "runs server_step ?t es
        (s\<lparr>sv_reg := run_pending a p' reg', sv_tasks := (sv_tasks s)(a \<mapsto> Serving)\<rparr>)" by simp blast
    ultimately have "runs server_step s (e # es)
        (s\<lparr>sv_reg := run_pending a p' reg', sv_tasks := (sv_tasks s)(a \<mapsto> Serving)\<rparr>)"
      by (rule runs_cons)
    moreover have "run_pending a p reg = run_pending a p' reg'"
      using False n "1.prems"(2) by (simp add: run_pending.simps [of a p])
    ultimately show ?thesis by (simp only:) blast
  qed
qed

text \<open>
  A handler always finishes, and when no other task runs in between, its critical
  sections together have the effect of the atomic handler.
\<close>

lemma handler_completes:
  assumes "sv_tasks s a = Some Serving"
  shows "\<exists>es. runs server_step s (Receive a msg # es) (s\<lparr>sv_reg := handle_message h a msg (sv_reg s)\<rparr>)"
proof -
  obtain reg' p where f: "first_section h a msg (sv_reg s) = (reg', p)" by fastforce
  let ?t = "s\<lparr>sv_reg := reg', sv_tasks := (sv_tasks s)(a \<mapsto> task_of p)\<rparr>"
  obtain es where "runs server_step ?t es
      (?t\<lparr>sv_reg := run_pending a p reg', sv_tasks := (sv_tasks ?t)(a \<mapsto> Serving)\<rparr>)"
    using runs_pending [of ?t a p reg'] by auto
  moreover have "?t\<lparr>sv_reg := run_pending a p reg', sv_tasks := (sv_tasks ?t)(a \<mapsto> Serving)\<rparr> =
      s\<lparr>sv_reg := handle_message h a msg (sv_reg s)\<rparr>"
    using assms f by (simp add: handle_message_def fun_upd_idem)
  ultimately show ?thesis using sv_receive [OF assms f] by (auto intro: runs_cons)
qed

lemma reachable_handled:
  assumes "reachable server_init server_step s" and "sv_tasks s a = Some Serving"
  shows "reachable server_init server_step (s\<lparr>sv_reg := handle_message h a msg (sv_reg s)\<rparr>)"
proof -
  obtain reg' p where f: "first_section h a msg (sv_reg s) = (reg', p)" by fastforce
  let ?t = "s\<lparr>sv_reg := reg', sv_tasks := (sv_tasks s)(a \<mapsto> task_of p)\<rparr>"
  obtain es where "runs server_step ?t es
      (?t\<lparr>sv_reg := run_pending a p reg', sv_tasks := (sv_tasks ?t)(a \<mapsto> Serving)\<rparr>)"
    using runs_pending [of ?t a p reg'] by auto
  then have "reachable server_init server_step
      (?t\<lparr>sv_reg := run_pending a p reg', sv_tasks := (sv_tasks ?t)(a \<mapsto> Serving)\<rparr>)"
    using reach_step [OF assms(1) sv_receive [OF assms(2) f]] by (rule reachable_runs)
  then show ?thesis using assms(2) f by (simp add: handle_message_def fun_upd_idem)
qed

section \<open>Example states\<close>

definition addr_a :: socket_addr where "addr_a = SocketAddrV4 1 1000"
definition addr_b :: socket_addr where "addr_b = SocketAddrV4 2 2000"
definition addr_c :: socket_addr where "addr_c = SocketAddrV4 3 3000"

lemma addrs_distinct [simp]:
  "addr_a \<noteq> addr_b" "addr_b \<noteq> addr_a" "addr_a \<noteq> addr_c" "addr_c \<noteq> addr_a"
  "addr_b \<noteq> addr_c" "addr_c \<noteq> addr_b"
  by (simp_all add: addr_a_def addr_b_def addr_c_def)

definition host5 :: advertised_server where
  "host5 = \<lparr>sender_id = 5, ad_data = default_advertisement\<rparr>"

lemma sender_id_host5 [simp]: "sender_id host5 = 5"
  by (simp add: host5_def)

text \<open>Three connected clients, the first of which hosts the server with id 5.\<close>

definition reg_abc :: registry where
  "reg_abc = publish_by (\<lambda>_. 0) addr_a host5
     (client_connected addr_c (client_connected addr_b (client_connected addr_a registry_start)))"

lemma reg_ok_abc [simp]: "reg_ok reg_abc"
  unfolding reg_abc_def publish_by_def
  by (intro reg_ok_handle_message reg_ok_client_connected reg_ok_default)

lemma reg_abc_eval [simp]:
  "reg_hosts reg_abc = [(5, addr_a)]"
  "reg_host_records reg_abc = [(5, host5)]"
  "reg_sessions reg_abc = hm_new"
  "reg_next_session_id reg_abc = 1"
  "hm_get (reg_clients reg_abc) addr_b = Some chan_new"
  "hm_get (reg_clients reg_abc) addr_c = Some chan_new"
  "hm_get (reg_clients reg_abc) addr_a = Some \<lparr>chan_queue = [Registered 5], chan_rx_open = True\<rparr>"
  by (simp_all add: reg_abc_def publish_by_def handle_message_def client_connected_def registry_start_def
      registry_default_def get_clients_send_to chan_send_def)
    (simp_all add: hm_eval chan_new_def)

lemma reachable_accepted:
  assumes "reachable server_init server_step s" and "sv_tasks s a = None" and "sv_wire s a = []"
  shows "reachable server_init server_step
    (s\<lparr>sv_reg := client_connected a (sv_reg s), sv_tasks := (sv_tasks s)(a \<mapsto> Serving)\<rparr>)"
  using reach_step [OF assms(1) sv_accept [OF assms(2)]] assms(3) by (simp add: fun_upd_idem)

definition sv_abc :: server_state where
  "sv_abc = \<lparr>sv_reg = reg_abc,
     sv_tasks = [addr_a \<mapsto> Serving, addr_b \<mapsto> Serving, addr_c \<mapsto> Serving], sv_wire = (\<lambda>_. [])\<rparr>"

lemma sv_abc_sel [simp]:
  "sv_reg sv_abc = reg_abc" "sv_tasks sv_abc addr_a = Some Serving"
  "sv_tasks sv_abc addr_b = Some Serving" "sv_tasks sv_abc addr_c = Some Serving"
  by (simp_all add: sv_abc_def)

lemma reachable_abc [simp]: "reachable server_init server_step sv_abc"
proof -
  let ?start = "\<lparr>sv_reg = registry_start, sv_tasks = Map.empty, sv_wire = (\<lambda>_. [])\<rparr>"
  let ?conn = "\<lambda>a s. s\<lparr>sv_reg := client_connected a (sv_reg s), sv_tasks := (sv_tasks s)(a \<mapsto> Serving)\<rparr>"
  have "reachable server_init server_step ?start" by (rule reach_init) (simp add: server_init_def)
  then have "reachable server_init server_step (?conn addr_a ?start)"
    by (rule reachable_accepted) simp_all
  then have "reachable server_init server_step (?conn addr_b (?conn addr_a ?start))"
    by (rule reachable_accepted) simp_all
  then have r: "reachable server_init server_step (?conn addr_c (?conn addr_b (?conn addr_a ?start)))"
    by (rule reachable_accepted) simp_all
  show ?thesis
    using reachable_handled [OF r, of addr_a "\<lambda>_. 0" "RegisterHost host5"]
    by (simp add: sv_abc_def reg_abc_def publish_by_def)
qed

section \<open>Consistency\<close>

text \<open>
  C1: in every state the server can reach, with any number of clients and under any
  interleaving of their handlers, writers and cleanups: a host has an owner exactly when
  it has a record, the record carries the id it is stored under, and every owner and every
  joiner of a session is a connection that still has a task and a message channel.
\<close>

theorem registry_consistent:
  assumes "reachable server_init server_step s"
  shows "(\<forall>sid. hm_get (reg_hosts (sv_reg s)) sid = None \<longleftrightarrow> hm_get (reg_host_records (sv_reg s)) sid = None)
    \<and> (\<forall>sid r. hm_get (reg_host_records (sv_reg s)) sid = Some r \<longrightarrow> sender_id r = sid)
    \<and> (\<forall>sid a. hm_get (reg_hosts (sv_reg s)) sid = Some a \<longrightarrow> sv_tasks s a \<noteq> None)
    \<and> (\<forall>i j h. hm_get (reg_sessions (sv_reg s)) i = Some (j, h) \<longrightarrow> sv_tasks s j \<noteq> None)
    \<and> (\<forall>a. sv_tasks s a = None \<longleftrightarrow> hm_get (reg_clients (sv_reg s)) a = None)"
proof -
  have inv: "reg_inv (dom (sv_tasks s)) (sv_reg s)"
    using server_sys.inv_reachable [OF assms] by (simp add: server_inv_def)
  then have "dom (hm_get (reg_hosts (sv_reg s))) = dom (hm_get (reg_host_records (sv_reg s)))"
    and "dom (hm_get (reg_clients (sv_reg s))) = dom (sv_tasks s)"
    by (simp_all add: reg_inv_def reg_ok_def)
  then have "\<forall>sid. hm_get (reg_hosts (sv_reg s)) sid = None \<longleftrightarrow> hm_get (reg_host_records (sv_reg s)) sid = None"
    and "\<forall>a. sv_tasks s a = None \<longleftrightarrow> hm_get (reg_clients (sv_reg s)) a = None"
    by (metis domIff)+
  with inv show ?thesis
    unfolding reg_inv_def reg_ok_def by (metis domIff fst_conv)
qed

theorem registry_consistent_witness:
  "hm_get (reg_hosts (sv_reg sv_abc)) 5 = Some addr_a \<and> hm_get (reg_host_records (sv_reg sv_abc)) 5 \<noteq> None
    \<and> sv_tasks sv_abc addr_a \<noteq> None \<and> hm_get (reg_clients (sv_reg sv_abc)) addr_a \<noteq> None"
proof -
  have "hm_get (reg_hosts (sv_reg sv_abc)) 5 = Some addr_a" by (simp add: hm_get_def)
  then show ?thesis using registry_consistent [OF reachable_abc] by (metis option.distinct(1))
qed

section \<open>Disconnection\<close>

text \<open>
  C13: when a connection ends, the cleanup removes its channel, every host it owns together
  with the record, and every relay session it takes part in; all other clients, hosts,
  records and sessions stay as they are. In particular a host that another connection has
  registered in the meantime survives the cleanup of its former owner.
\<close>

theorem disconnect_removes_exactly:
  assumes "reg_ok reg"
  shows "hm_get (reg_clients (client_disconnected h a reg)) = (hm_get (reg_clients reg))(a := None)
    \<and> hm_get (reg_hosts (client_disconnected h a reg)) sid =
        (if hm_get (reg_hosts reg) sid = Some a then None else hm_get (reg_hosts reg) sid)
    \<and> hm_get (reg_host_records (client_disconnected h a reg)) sid =
        (if hm_get (reg_hosts reg) sid = Some a then None else hm_get (reg_host_records reg) sid)
    \<and> hm_get (reg_sessions (client_disconnected h a reg)) i =
        (case hm_get (reg_sessions reg) i of None \<Rightarrow> None
         | Some (j, k) \<Rightarrow> if j = a \<or> k = a then None else Some (j, k))"
proof -
  have "hm_ok (reg_hosts reg)" and "hm_ok (reg_sessions reg)" using assms by (simp_all add: reg_ok_def)
  then show ?thesis
    by (auto simp: client_disconnected_def set_orphaned hm_get_retain split: option.splits)
qed

theorem disconnect_removes_exactly_witness:
  "hm_get (reg_clients (client_disconnected (\<lambda>_. 0) addr_a reg_abc)) =
      (hm_get (reg_clients reg_abc))(addr_a := None)
    \<and> hm_get (reg_hosts (client_disconnected (\<lambda>_. 0) addr_a reg_abc)) 5 =
        (if hm_get (reg_hosts reg_abc) 5 = Some addr_a then None else hm_get (reg_hosts reg_abc) 5)
    \<and> hm_get (reg_host_records (client_disconnected (\<lambda>_. 0) addr_a reg_abc)) 5 =
        (if hm_get (reg_hosts reg_abc) 5 = Some addr_a then None else hm_get (reg_host_records reg_abc) 5)
    \<and> hm_get (reg_sessions (client_disconnected (\<lambda>_. 0) addr_a reg_abc)) 1 =
        (case hm_get (reg_sessions reg_abc) 1 of None \<Rightarrow> None
         | Some (j, k) \<Rightarrow> if j = addr_a \<or> k = addr_a then None else Some (j, k))"
  by (rule disconnect_removes_exactly) (rule reg_ok_abc)

section \<open>Ownership\<close>

lemma first_section_foreign:
  assumes "hm_get (reg_hosts reg) sid = Some a" and "b \<noteq> a"
    and "\<And>server. msg = RegisterHost server \<Longrightarrow> sender_id server \<noteq> sid"
  shows "hm_get (reg_hosts (fst (first_section h b msg reg))) sid = Some a
    \<and> hm_get (reg_host_records (fst (first_section h b msg reg))) sid = hm_get (reg_host_records reg) sid"
  using assms by (cases msg) (auto split: option.splits)

text \<open>
  The registration of a host and its record change only through a step of its owner,
  or when another client registers the same id: updates and unregistrations by others, and
  the end of other connections, leave them alone.
\<close>

lemma host_changed_by_owner_only:
  assumes "reachable server_init server_step s" and "server_step s e t"
    and "hm_get (reg_hosts (sv_reg s)) sid = Some a"
    and "\<And>msg. e \<noteq> Receive a msg" and "e \<noteq> Cleanup a"
    and "\<And>b server. e = Receive b (RegisterHost server) \<Longrightarrow> sender_id server \<noteq> sid"
  shows "hm_get (reg_hosts (sv_reg t)) sid = Some a
    \<and> hm_get (reg_host_records (sv_reg t)) sid = hm_get (reg_host_records (sv_reg s)) sid"
  using assms(2)
proof cases
  case (sv_receive b h msg reg' p)
  then show ?thesis
    using first_section_foreign [of "sv_reg s" sid a b msg h] assms(3,4,6) by auto
next
  case (sv_alloc b host j reg' p)
  then show ?thesis using assms(3) by (auto simp: Let_def)
next
  case (sv_deliver b dest msg rest reg' p)
  then show ?thesis using assms(3) by auto
next
  case (sv_cleanup b h)
  have "reg_ok (sv_reg s)"
    using server_sys.inv_reachable [OF assms(1)] by (simp add: server_inv_def reg_inv_def)
  then have "hm_ok (reg_hosts (sv_reg s))" by (simp add: reg_ok_def)
  then show ?thesis
    using sv_cleanup assms(3,5) by (auto simp: client_disconnected_def set_orphaned)
qed (use assms(3) in \<open>simp_all add: client_connected_def\<close>)

section \<open>Host lists\<close>

lemma served_hosts_ids:
  assumes "reg_ok reg"
  shows "map sender_id (served_hosts h reg) = hm_keys h (reg_host_records reg)"
proof -
  have "sender_id r = k" if "(k, r) \<in> set (hm_iter h (reg_host_records reg))" for k r
    using that assms by (auto simp: hm_in_iter reg_ok_def)
  then show ?thesis by (auto simp: served_hosts_def hm_values_def hm_keys_def)
qed

text \<open>
  C15: the answer to a host list request holds exactly the registered records, each id
  once, and the owner of every listed host is still connected.
\<close>

theorem host_list_exact:
  assumes "reachable server_init server_step s"
  shows "\<exists>hosts. first_section h a ListHosts (sv_reg s) = (sv_reg s, Sends [(a, HostList hosts)])
    \<and> distinct (map sender_id hosts)
    \<and> (\<forall>r. r \<in> set hosts \<longleftrightarrow> hm_get (reg_host_records (sv_reg s)) (sender_id r) = Some r)
    \<and> (\<forall>r\<in>set hosts. \<exists>b. hm_get (reg_hosts (sv_reg s)) (sender_id r) = Some b \<and> sv_tasks s b \<noteq> None)"
proof (intro exI conjI)
  have inv: "reg_inv (dom (sv_tasks s)) (sv_reg s)" and ok: "reg_ok (sv_reg s)"
    using server_sys.inv_reachable [OF assms] by (simp_all add: server_inv_def reg_inv_def)
  show "first_section h a ListHosts (sv_reg s) = (sv_reg s, Sends [(a, HostList (served_hosts h (sv_reg s)))])"
    by (simp add: served_hosts_def)
  show "distinct (map sender_id (served_hosts h (sv_reg s)))"
    using ok by (simp add: served_hosts_ids hm_distinct_keys reg_ok_def)
  show mem: "\<forall>r. r \<in> set (served_hosts h (sv_reg s)) \<longleftrightarrow>
      hm_get (reg_host_records (sv_reg s)) (sender_id r) = Some r"
    using in_served_hosts [OF ok] by blast
  show "\<forall>r\<in>set (served_hosts h (sv_reg s)). \<exists>b. hm_get (reg_hosts (sv_reg s)) (sender_id r) = Some b
      \<and> sv_tasks s b \<noteq> None"
  proof
    fix r assume "r \<in> set (served_hosts h (sv_reg s))"
    with mem have "sender_id r \<in> dom (hm_get (reg_host_records (sv_reg s)))" by blast
    moreover have "dom (hm_get (reg_hosts (sv_reg s))) = dom (hm_get (reg_host_records (sv_reg s)))"
      using ok by (simp only: reg_ok_def)
    ultimately have "sender_id r \<in> dom (hm_get (reg_hosts (sv_reg s)))" by simp
    then obtain b where b: "hm_get (reg_hosts (sv_reg s)) (sender_id r) = Some b" by blast
    then have "b \<in> dom (sv_tasks s)" using inv unfolding reg_inv_def by blast
    with b show "\<exists>b. hm_get (reg_hosts (sv_reg s)) (sender_id r) = Some b \<and> sv_tasks s b \<noteq> None"
      by auto
  qed
qed

theorem host_list_exact_witness:
  "\<exists>hosts. first_section (\<lambda>_. 0) addr_a ListHosts (sv_reg sv_abc)
      = (sv_reg sv_abc, Sends [(addr_a, HostList hosts)])
    \<and> distinct (map sender_id hosts)
    \<and> (\<forall>r. r \<in> set hosts \<longleftrightarrow> hm_get (reg_host_records (sv_reg sv_abc)) (sender_id r) = Some r)
    \<and> (\<forall>r\<in>set hosts. \<exists>b. hm_get (reg_hosts (sv_reg sv_abc)) (sender_id r) = Some b
        \<and> sv_tasks sv_abc b \<noteq> None)"
  by (rule host_list_exact) (rule reachable_abc)

end
