(* ===== verification/Server_Directory.thy ===== *)
theory Server_Directory
  imports Server_Properties Progress
begin

text \<open>
  What the rendezvous server is for, without connections, tasks and locks: a directory from
  sender ids to the owner and the record of a host. Publishing, revising, withdrawing and
  departing are functions on it. The concurrent server refines it: under every interleaving
  the directory it holds is the one these operations give in the order of the critical
  sections that perform them, and host lists are read off the directory.
\<close>

section \<open>The directory\<close>

type_synonym directory = "u64 \<rightharpoonup> socket_addr \<times> advertised_server"

datatype directory_op =
  Publish socket_addr advertised_server
| Revise socket_addr advertised_server
| Withdraw socket_addr u64
| Depart socket_addr

definition owned_by :: "directory \<Rightarrow> u64 \<Rightarrow> socket_addr \<Rightarrow> bool" where
  "owned_by d sid a \<longleftrightarrow> map_option fst (d sid) = Some a"

fun directory_apply :: "directory_op \<Rightarrow> directory \<Rightarrow> directory" where
  "directory_apply (Publish a r) d = d(sender_id r \<mapsto> (a, r))"
| "directory_apply (Revise a r) d = (if owned_by d (sender_id r) a then d(sender_id r \<mapsto> (a, r)) else d)"
| "directory_apply (Withdraw a sid) d = (if owned_by d sid a then d(sid := None) else d)"
| "directory_apply (Depart a) d = (\<lambda>sid. if owned_by d sid a then None else d sid)"

fun directory_ops :: "server_event \<Rightarrow> directory_op list" where
  "directory_ops (Receive a (RegisterHost r)) = [Publish a r]"
| "directory_ops (Receive a (UpdateHost r)) = [Revise a r]"
| "directory_ops (Receive a (UnregisterHost sid)) = [Withdraw a sid]"
| "directory_ops (Cleanup a) = [Depart a]"
| "directory_ops _ = []"

section \<open>The abstraction\<close>

definition directory_of :: "registry \<Rightarrow> directory" where
  "directory_of reg sid =
     (case (hm_get (reg_hosts reg) sid, hm_get (reg_host_records reg) sid) of
        (Some a, Some r) \<Rightarrow> Some (a, r)
      | _ \<Rightarrow> None)"

lemma directory_of_cong:
  "reg_hosts reg' = reg_hosts reg \<Longrightarrow> reg_host_records reg' = reg_host_records reg \<Longrightarrow>
    directory_of reg' = directory_of reg"
  by (simp add: directory_of_def fun_eq_iff)

lemma hosts_iff_records:
  "reg_ok reg \<Longrightarrow> hm_get (reg_hosts reg) sid = None \<longleftrightarrow> hm_get (reg_host_records reg) sid = None"
  unfolding reg_ok_def by (metis domIff)

lemma owned_directory_of:
  assumes "reg_ok reg"
  shows "owned_by (directory_of reg) sid a \<longleftrightarrow> hm_get (reg_hosts reg) sid = Some a"
  using hosts_iff_records [OF assms, of sid]
  by (auto simp: owned_by_def directory_of_def split: option.splits)

lemma directory_of_first_section:
  assumes "reg_ok reg"
  shows "directory_of (fst (first_section h a msg reg)) = fold directory_apply (directory_ops (Receive a msg)) (directory_of reg)"
proof (cases msg)
  case (RegisterHost r)
  then show ?thesis by (auto simp: directory_of_def fun_eq_iff)
next
  case (UnregisterHost sid)
  then show ?thesis using assms by (auto simp: owned_directory_of) (auto simp: directory_of_def fun_eq_iff)
next
  case (UpdateHost r)
  then show ?thesis using assms by (auto simp: owned_directory_of) (auto simp: directory_of_def fun_eq_iff)
qed (auto simp: directory_of_def fun_eq_iff split: option.splits)

lemma directory_of_client_disconnected:
  assumes "reg_ok reg"
  shows "directory_of (client_disconnected h a reg) = directory_apply (Depart a) (directory_of reg)"
proof -
  have "hm_ok (reg_hosts reg)" using assms by (simp add: reg_ok_def)
  then show ?thesis
    using owned_directory_of [OF assms, of _ a]
    by (auto simp: directory_of_def client_disconnected_def set_orphaned fun_eq_iff)
qed

lemma directory_of_step:
  assumes "server_inv s" and "server_step s e t"
  shows "directory_of (sv_reg t) = fold directory_apply (directory_ops e) (directory_of (sv_reg s))"
proof -
  have ok: "reg_ok (sv_reg s)" using assms(1) by (simp add: server_inv_def reg_inv_def)
  show ?thesis
    using assms(2)
  proof cases
    case (sv_receive a h msg reg' p)
    then show ?thesis using directory_of_first_section [OF ok, of h a msg] by simp
  next
    case (sv_cleanup a h)
    then show ?thesis using directory_of_client_disconnected [OF ok] by simp
  qed (auto simp: client_connected_def Let_def intro: directory_of_cong)
qed

interpretation directory_refinement:
  functional_refinement server_init server_step server_inv "\<lambda>s. directory_of (sv_reg s)" directory_apply directory_ops
  by unfold_locales (rule directory_of_step)

section \<open>Refinement\<close>

lemma directory_start: "directory_of registry_start = Map.empty"
  by (simp add: directory_of_def registry_start_def registry_default_def fun_eq_iff)

text \<open>The records a host list holds, in the order of the hash map.\<close>

lemma served_hosts_directory:
  assumes "reg_ok reg"
  shows "set (served_hosts h reg) = snd ` ran (directory_of reg)"
proof -
  have "r \<in> set (served_hosts h reg) \<longleftrightarrow> (\<exists>sid a. directory_of reg sid = Some (a, r))" for r
  proof
    assume "r \<in> set (served_hosts h reg)"
    then have "hm_get (reg_host_records reg) (sender_id r) = Some r" using in_served_hosts [OF assms] by blast
    moreover then obtain a where "hm_get (reg_hosts reg) (sender_id r) = Some a"
      using hosts_iff_records [OF assms, of "sender_id r"] by (cases "hm_get (reg_hosts reg) (sender_id r)") auto
    ultimately have "directory_of reg (sender_id r) = Some (a, r)" by (simp add: directory_of_def)
    then show "\<exists>sid a. directory_of reg sid = Some (a, r)" by blast
  next
    assume "\<exists>sid a. directory_of reg sid = Some (a, r)"
    then obtain sid where "hm_get (reg_host_records reg) sid = Some r"
      by (auto simp: directory_of_def split: option.splits)
    moreover then have "sender_id r = sid" using assms by (simp add: reg_ok_def)
    ultimately show "r \<in> set (served_hosts h reg)" using in_served_hosts [OF assms] by blast
  qed
  then show ?thesis by (force simp: ran_def)
qed

text \<open>
  C5: the concurrent server implements the directory: after any run of the server, with any
  number of clients and any interleaving, its directory is what publishing, revising,
  withdrawing and departing give in the order in which the server performed them; a revision
  or withdrawal counts only when it comes from the owner, and every host list it sends holds
  exactly the records of the directory at that moment.
\<close>

theorem server_refines_directory:
  assumes "server_init s" and "runs server_step s es t"
  shows "directory_of (sv_reg t) = fold directory_apply (concat (map directory_ops es)) Map.empty
    \<and> (\<exists>hosts. first_section h a ListHosts (sv_reg t) = (sv_reg t, Sends [(a, HostList hosts)])
        \<and> set hosts = snd ` ran (directory_of (sv_reg t)) \<and> distinct (map sender_id hosts))"
proof -
  have "reachable server_init server_step t" using assms reach_init reachable_runs by metis
  then have ok: "reg_ok (sv_reg t)"
    using server_sys.inv_reachable by (auto simp: server_inv_def reg_inv_def)
  have "directory_of (sv_reg t) = fold directory_apply (concat (map directory_ops es)) Map.empty"
    using directory_refinement.abs_runs_init [OF assms] assms(1) by (simp add: server_init_def directory_start)
  moreover have "distinct (map sender_id (served_hosts h (sv_reg t)))"
    using ok by (simp add: served_hosts_ids hm_distinct_keys reg_ok_def)
  ultimately show ?thesis
    using served_hosts_directory [OF ok, of h] by (auto simp: served_hosts_def)
qed

text \<open>Two clients connect; the first publishes a world, the second tries to withdraw it and leaves.\<close>

definition directory_events :: "server_event list" where
  "directory_events = [Receive addr_b (UnregisterHost 5), Receive addr_c (UnregisterHost 5), Leave addr_c, Cleanup addr_c]"

lemma step_unregister:
  assumes "sv_tasks s a = Some Serving"
  shows "\<exists>t. server_step s (Receive a (UnregisterHost sid)) t \<and> sv_tasks t = sv_tasks s"
proof -
  obtain reg' where "first_section (\<lambda>_. 0) a (UnregisterHost sid) (sv_reg s) = (reg', Sends [])"
    by (cases "hm_get (reg_hosts (sv_reg s)) sid = Some a") simp_all
  from sv_receive [OF assms this] assms show ?thesis by (auto simp: task_of_def fun_upd_idem)
qed

lemma runs_directory_events: "\<exists>t. runs server_step sv_abc directory_events t"
proof -
  obtain s1 where s1: "server_step sv_abc (Receive addr_b (UnregisterHost 5)) s1" "sv_tasks s1 = sv_tasks sv_abc"
    using step_unregister [of sv_abc addr_b 5] by auto
  obtain s2 where s2: "server_step s1 (Receive addr_c (UnregisterHost 5)) s2" "sv_tasks s2 = sv_tasks s1"
    using step_unregister [of s1 addr_c 5] s1(2) by auto
  obtain s3 where s3: "server_step s2 (Leave addr_c) s3" "sv_tasks s3 addr_c = Some Leaving"
    using sv_leave [of s2 addr_c] s1(2) s2(2) by auto
  obtain t where "server_step s3 (Cleanup addr_c) t" using sv_cleanup [OF s3(2)] by blast
  with s1(1) s2(1) s3(1) show ?thesis unfolding directory_events_def by (blast intro: runs.intros)
qed

theorem server_refines_directory_witness:
  "\<exists>s es t. server_init s \<and> runs server_step s (es @ directory_events) t
    \<and> directory_of (sv_reg t) = fold directory_apply (concat (map directory_ops (es @ directory_events))) Map.empty"
proof -
  obtain s es where s: "server_init s" "runs server_step s es sv_abc"
    using reachable_run [OF reachable_abc] by blast
  obtain t where "runs server_step sv_abc directory_events t" using runs_directory_events by blast
  then have r: "runs server_step s (es @ directory_events) t" using s(2) by (rule runs_append [rotated])
  show ?thesis using s(1) r server_refines_directory [OF s(1) r] by blast
qed

end
