(* ===== verification/Server_Sessions.thy ===== *)
theory Server_Sessions
  imports Server_Properties "HOL-Library.Sublist"
begin

text \<open>
  Joins, relay sessions and the delivery of messages in the rendezvous server: a join
  request reaches the host and is answered, session ids do not repeat, signals go both
  ways, and a peer receives its messages in the order they were sent. The last section
  states two limits: a session follows whoever signaled last on its connection id, and a
  join request can leave a session with a host that is gone.
\<close>

section \<open>Joining\<close>

text \<open>What a client's channel holds, and whether the client still takes messages.\<close>

definition inbox :: "registry \<Rightarrow> socket_addr \<Rightarrow> server_message list" where
  "inbox reg a = (case hm_get (reg_clients reg) a of None \<Rightarrow> [] | Some c \<Rightarrow> chan_queue c)"

definition takes_messages :: "registry \<Rightarrow> socket_addr \<Rightarrow> bool" where
  "takes_messages reg a = (case hm_get (reg_clients reg) a of None \<Rightarrow> False | Some c \<Rightarrow> chan_rx_open c)"

lemma takes_messages_send_to [simp]: "takes_messages (send_to b m reg) a = takes_messages reg a"
  by (auto simp: takes_messages_def get_clients_send_to split: option.splits)

lemma inbox_send_to [simp]:
  "inbox (send_to b m reg) a = (if a = b \<and> takes_messages reg a then inbox reg a @ [m] else inbox reg a)"
  by (auto simp: inbox_def takes_messages_def get_clients_send_to split: option.splits)

lemma inbox_other_fields [simp]:
  "inbox (reg\<lparr>reg_sessions := x\<rparr>) a = inbox reg a"
  "inbox (reg\<lparr>reg_next_session_id := i\<rparr>) a = inbox reg a"
  "takes_messages (reg\<lparr>reg_sessions := x\<rparr>) a = takes_messages reg a"
  "takes_messages (reg\<lparr>reg_next_session_id := i\<rparr>) a = takes_messages reg a"
  by (simp_all add: inbox_def takes_messages_def)

lemma inbox_abc [simp]:
  "inbox reg_abc addr_a = [Registered 5]" "inbox reg_abc addr_b = []" "inbox reg_abc addr_c = []"
  "takes_messages reg_abc addr_a" "takes_messages reg_abc addr_b" "takes_messages reg_abc addr_c"
  by (simp_all add: inbox_def takes_messages_def)

text \<open>
  C16: a join request for a registered host gets the value of the session counter as its id:
  the host is told who joins, the joiner that it was accepted, both with this id, the counter
  advances, and nobody else hears of it. The session of the two is recorded under the id, in
  place of a session that a signal may have put under the same number before; all other
  sessions stay.
\<close>

theorem join_request_accepted:
  assumes "hm_get (reg_hosts reg) target = Some host" and "host \<noteq> a"
    and "takes_messages reg host" and "takes_messages reg a"
    and "i = reg_next_session_id reg"
    and "reg' = handle_message h a (ConnectRequest target joiner) reg"
  shows "inbox reg' host = inbox reg host @ [IncomingJoin joiner i]
    \<and> inbox reg' a = inbox reg a @ [JoinAccepted i]
    \<and> (\<forall>b. b \<noteq> host \<and> b \<noteq> a \<longrightarrow> inbox reg' b = inbox reg b)
    \<and> hm_get (reg_sessions reg') = (hm_get (reg_sessions reg))(i \<mapsto> (a, host))
    \<and> reg_next_session_id reg' = i + 1"
  using assms by (auto simp: handle_message_def fun_eq_iff)

theorem join_request_accepted_witness:
  "let reg' = handle_message (\<lambda>_. 0) addr_b (ConnectRequest 5 77) reg_abc in
    inbox reg' addr_a = inbox reg_abc addr_a @ [IncomingJoin 77 (reg_next_session_id reg_abc)]
    \<and> inbox reg' addr_b = inbox reg_abc addr_b @ [JoinAccepted (reg_next_session_id reg_abc)]"
  using join_request_accepted [of reg_abc 5 addr_a addr_b _ _ "\<lambda>_. 0" 77, OF _ _ _ _ refl refl]
  by (simp add: hm_get_def Let_def)

text \<open>
  Session ids and connection ids share one map: a join request whose id a pair of clients
  already uses as a connection id takes their session over, and the answers of the pair on
  this id go to the new joiner.
\<close>

lemma join_takes_over_session:
  assumes "hm_get (reg_hosts reg) target = Some host" and "hm_get (reg_sessions reg) (reg_next_session_id reg) = Some (j, other)"
    and "j \<noteq> a" and "host \<noteq> a" and "takes_messages reg a"
    and "i = reg_next_session_id reg" and "reg1 = handle_message h a (ConnectRequest target joiner) reg"
    and "reg2 = handle_message h' other (ClientSignal 0 i n answer) reg1"
  shows "hm_get (reg_sessions reg1) i = Some (a, host)
    \<and> inbox reg2 a = inbox reg1 a @ [ServerSignal i n answer] \<and> inbox reg2 j = inbox reg1 j"
  using assms by (simp add: handle_message_def)

text \<open>
  A join request for an unknown id changes nothing and answers the requester, and
  nobody else, with the id in hexadecimal.
\<close>

lemma join_request_unknown_host:
  assumes "hm_get (reg_hosts reg) target = None" and "takes_messages reg a"
  shows "handle_message h a (ConnectRequest target joiner) reg
      = send_to a (ErrorMessage (lit ''no such host: '' @ lit ''0x'' @ hex_digits False (unat target))) reg
    \<and> inbox (handle_message h a (ConnectRequest target joiner) reg) a
      = inbox reg a @ [ErrorMessage (lit ''no such host: 0x'' @ hex_digits False (unat target))]"
  using assms by (simp add: handle_message_def fmt_alt_x_def)

section \<open>Session ids\<close>

fun is_alloc :: "server_event \<Rightarrow> bool" where
  "is_alloc (Alloc _) = True"
| "is_alloc _ = False"

lemma first_section_next_id [simp]:
  "reg_next_session_id (fst (first_section h a msg reg)) = reg_next_session_id reg"
  by (cases msg) (auto split: option.splits)

lemma first_section_next_id':
  "first_section h a msg reg = (reg', p) \<Longrightarrow> reg_next_session_id reg' = reg_next_session_id reg"
  by (metis first_section_next_id fst_conv)

lemma step_next_id:
  "server_step s e t \<Longrightarrow>
    reg_next_session_id (sv_reg t) = reg_next_session_id (sv_reg s) + (if is_alloc e then 1 else 0)"
  by (erule server_stepE)
    (auto simp: client_connected_def client_disconnected_def Let_def dest: first_section_next_id')

lemma runs_next_id:
  "runs server_step s es t \<Longrightarrow>
    reg_next_session_id (sv_reg t) = reg_next_session_id (sv_reg s) + of_nat (length (filter is_alloc es))"
  by (induction rule: runs.induct) (auto simp: step_next_id)

text \<open>
  What an allocation hands out: the task goes on to tell host and joiner the same id, under
  which the session is recorded, and this id is the value the counter had.
\<close>

definition hands_out :: "socket_addr \<Rightarrow> server_state \<Rightarrow> u64 \<Rightarrow> bool" where
  "hands_out a t i \<longleftrightarrow> (\<exists>host joiner.
     sv_tasks t a = Some (Busy (Sends [(host, IncomingJoin joiner i), (a, JoinAccepted i)]))
     \<and> hm_get (reg_sessions (sv_reg t)) i = Some (a, host))"

lemma alloc_hands_out:
  assumes "server_step s (Alloc a) t"
  shows "hands_out a t (reg_next_session_id (sv_reg s))"
  using assms by (auto elim!: server_stepE simp: hands_out_def task_of_def Let_def)

lemma hands_out_unique: "hands_out a t i \<Longrightarrow> hands_out a t j \<Longrightarrow> i = j"
  by (auto simp: hands_out_def)

text \<open>
  C17: session ids do not repeat: every allocation hands out exactly one id, told to host
  and joiner and recorded between them, and the ids of two allocations with fewer than
  \<open>2 ^ 64\<close> allocations from the first (included) to the second differ, whatever else happens.
\<close>

theorem session_ids_fresh:
  assumes "server_step s (Alloc a) t" and "runs server_step t es u" and "server_step u (Alloc b) v"
    and "length (filter is_alloc es) + 1 < 2 ^ 64"
  shows "(\<exists>!i. hands_out a t i) \<and> (\<exists>!j. hands_out b v j) \<and> (\<forall>i j. hands_out a t i \<and> hands_out b v j \<longrightarrow> i \<noteq> j)"
proof -
  let ?i = "reg_next_session_id (sv_reg s)" and ?j = "reg_next_session_id (sv_reg u)"
  have "?j = ?i + of_nat (length (filter is_alloc es) + 1)"
    using step_next_id [OF assms(1)] runs_next_id [OF assms(2)] by (simp add: add_ac)
  moreover have "of_nat (length (filter is_alloc es) + 1) \<noteq> (0 :: u64)"
  proof
    assume "of_nat (length (filter is_alloc es) + 1) = (0 :: u64)"
    then have "unat (of_nat (length (filter is_alloc es) + 1) :: u64) = 0" by simp
    then show False using assms(4) by (simp add: unat_of_nat del: of_nat_Suc of_nat_add)
  qed
  ultimately have "?i \<noteq> ?j" by (metis add_cancel_right_right)
  moreover have "hands_out a t ?i" and "hands_out b v ?j" using alloc_hands_out assms(1,3) by blast+
  ultimately show ?thesis using hands_out_unique by metis
qed

text \<open>Two clients about to allocate, and the state after the first did.\<close>

definition sv_two_joins :: server_state where
  "sv_two_joins = sv_abc\<lparr>sv_tasks := (sv_tasks sv_abc)
     (addr_b \<mapsto> Busy (AllocSession addr_a 1), addr_c \<mapsto> Busy (AllocSession addr_a 2))\<rparr>"

definition sv_one_join :: server_state where
  "sv_one_join = (let (reg', p) = next_section addr_b (AllocSession addr_a 1) (sv_reg sv_two_joins) in
     sv_two_joins\<lparr>sv_reg := reg', sv_tasks := (sv_tasks sv_two_joins)(addr_b \<mapsto> task_of p)\<rparr>)"

lemma step_two_joins: "server_step sv_two_joins (Alloc addr_b) sv_one_join"
  unfolding sv_one_join_def case_prod_beta Let_def
  by (rule sv_alloc) (simp_all add: sv_two_joins_def Let_def)

lemma step_one_join: "\<exists>v. server_step sv_one_join (Alloc addr_c) v"
  by (intro exI, rule sv_alloc [OF _ refl [THEN trans, OF prod.collapse [symmetric]]])
    (simp add: sv_one_join_def sv_two_joins_def Let_def)

theorem session_ids_fresh_witness:
  "\<exists>v. server_step sv_one_join (Alloc addr_c) v \<and> (\<exists>i j. hands_out addr_b sv_one_join i \<and> hands_out addr_c v j \<and> i \<noteq> j)"
proof -
  obtain v where v: "server_step sv_one_join (Alloc addr_c) v" using step_one_join by blast
  have "length (filter is_alloc []) + 1 < (2 :: nat) ^ 64" by simp
  from session_ids_fresh [OF step_two_joins runs_nil v this] v show ?thesis by blast
qed

section \<open>Signals\<close>

lemma handle_signal_to_host:
  "target \<noteq> 0 \<Longrightarrow> hm_get (reg_hosts reg) target = Some host \<Longrightarrow>
    handle_message h a (ClientSignal target conn joiner payload) reg =
      send_to host (ServerSignal conn joiner payload)
        (reg\<lparr>reg_sessions := hm_insert conn (a, host) (reg_sessions reg)\<rparr>)"
  by (simp add: handle_message_def)

lemma handle_signal_to_joiner:
  "hm_get (reg_sessions reg) conn = Some (j, host) \<Longrightarrow>
    handle_message h a (ClientSignal 0 conn joiner payload) reg =
      send_to j (ServerSignal conn joiner payload) reg"
  by (simp add: handle_message_def)

text \<open>
  Signaling goes both ways: the signal of a joiner reaches the host of the id it
  names, and the answer of the host on the same connection id reaches this joiner, also
  when other clients exchange signals on other connection ids in between.
\<close>

lemma signal_answer_returns:
  assumes "target \<noteq> 0" and "hm_get (reg_hosts reg) target = Some host" and "host \<noteq> a"
    and "takes_messages reg host" and "takes_messages reg a"
    and "reg1 = handle_message h a (ClientSignal target conn na offer) reg"
    and "reg2 = handle_message h' c (ClientSignal target' conn' nc other) reg1" and "conn' \<noteq> conn"
    and "reg3 = handle_message h'' host (ClientSignal 0 conn nh answer) reg2"
  shows "inbox reg1 host = inbox reg host @ [ServerSignal conn na offer]
    \<and> inbox reg3 a = inbox reg2 a @ [ServerSignal conn nh answer]"
proof -
  have s: "hm_get (reg_sessions reg1) conn = Some (a, host)" and t: "takes_messages reg1 a"
    using assms(1-6) by (simp_all add: handle_signal_to_host)
  then have "hm_get (reg_sessions reg2) conn = Some (a, host)" and "takes_messages reg2 a"
    using assms(7,8) by (auto simp: handle_message_def split: option.splits)
  then show ?thesis
    using assms(1-6,9) by (simp add: handle_signal_to_host handle_signal_to_joiner)
qed

section \<open>Order of messages\<close>

fun delivered_to :: "socket_addr \<Rightarrow> server_event list \<Rightarrow> server_message list" where
  "delivered_to a [] = []"
| "delivered_to a (Deliver b dest msg # es) = (if dest = a then [msg] else []) @ delivered_to a es"
| "delivered_to a (_ # es) = delivered_to a es"

text \<open>
  \<open>carries s c t c' ms\<close>: what the wire and the channel of a client hold at \<open>t\<close> comes, in
  order, from what they held at \<open>s\<close> followed by \<open>ms\<close>, and all of it is there while the
  channel is open.
\<close>

definition held :: "socket_addr \<Rightarrow> server_state \<Rightarrow> client_handle \<Rightarrow> server_message list" where
  "held a s c = sv_wire s a @ chan_queue c"

definition carries ::
  "socket_addr \<Rightarrow> server_state \<Rightarrow> client_handle \<Rightarrow> server_state \<Rightarrow> client_handle \<Rightarrow> server_message list \<Rightarrow> bool" where
  "carries a s c t c' ms \<longleftrightarrow>
     (if chan_rx_open c' then chan_rx_open c \<and> held a t c' = held a s c @ ms
      else prefix (held a t c') (held a s c @ (if chan_rx_open c then ms else [])))"

lemma carries_trans:
  "carries a s c t c' ms \<Longrightarrow> carries a t c' u c'' ms' \<Longrightarrow> carries a s c u c'' (ms @ ms')"
  unfolding carries_def prefix_def by (auto split: if_splits) (metis append.assoc)

lemma carries_refl: "carries a s c s c []"
  by (simp add: carries_def)

lemma step_carries:
  assumes "server_step s e t" and "e \<noteq> Accept a" and "e \<noteq> Cleanup a"
    and "hm_get (reg_clients (sv_reg s)) a = Some c"
  shows "\<exists>c'. hm_get (reg_clients (sv_reg t)) a = Some c' \<and> carries a s c t c' (delivered_to a [e])"
  using assms(1)
proof cases
  case (sv_receive b h msg reg' p)
  then have "reg_clients reg' = reg_clients (sv_reg s)" by (metis first_section_clients fst_conv)
  then show ?thesis using assms(4) sv_receive by (simp add: carries_def held_def)
next
  case (sv_deliver b dest msg rest reg' p)
  then show ?thesis
    using assms(4) by (auto simp: carries_def held_def get_clients_send_to chan_send_def)
next
  case (sv_write b d m d')
  then show ?thesis
    using assms(4) by (auto simp: carries_def held_def chan_try_recv_def split: list.splits)
next
  case (sv_writer_stop b d)
  then show ?thesis using assms(4) by (auto simp: carries_def held_def)
qed (use assms(2-4) in \<open>auto simp: carries_def held_def client_connected_def client_disconnected_def Let_def\<close>)

lemma runs_carries:
  "runs server_step s es t \<Longrightarrow> Accept a \<notin> set es \<Longrightarrow> Cleanup a \<notin> set es \<Longrightarrow>
    hm_get (reg_clients (sv_reg s)) a = Some c \<Longrightarrow>
    \<exists>c'. hm_get (reg_clients (sv_reg t)) a = Some c' \<and> carries a s c t c' (delivered_to a es)"
proof (induction arbitrary: c rule: runs.induct)
  case (runs_nil s)
  then show ?case using carries_refl by auto
next
  case (runs_cons s e u es t)
  then obtain d where "hm_get (reg_clients (sv_reg u)) a = Some d" "carries a s c u d (delivered_to a [e])"
    using step_carries [of s e u a c] by auto
  moreover then obtain c' where "hm_get (reg_clients (sv_reg t)) a = Some c'"
      "carries a u d t c' (delivered_to a es)"
    using runs_cons by auto
  moreover have "delivered_to a (e # es) = delivered_to a [e] @ delivered_to a es"
    by (cases e) simp_all
  ultimately show ?case using carries_trans by metis
qed

text \<open>
  C8: the messages a peer receives are a prefix of the messages the handlers sent to it
  since it connected, in the order they were sent: no message is lost before a later one,
  duplicated or reordered. While its writer works, written and queued messages together
  are all of them.
\<close>

theorem delivery_in_order:
  assumes "server_step s0 (Accept a) s" and "runs server_step s es t"
    and "Accept a \<notin> set es" and "Cleanup a \<notin> set es"
  shows "prefix (sv_wire t a) (delivered_to a es)
    \<and> (takes_messages (sv_reg t) a \<longrightarrow> sv_wire t a @ inbox (sv_reg t) a = delivered_to a es)"
proof -
  have c: "hm_get (reg_clients (sv_reg s)) a = Some chan_new" and w: "sv_wire s a = []"
    using assms(1) by (auto elim!: server_stepE simp: client_connected_def)
  then obtain c' where "hm_get (reg_clients (sv_reg t)) a = Some c'"
    and "carries a s chan_new t c' (delivered_to a es)"
    using runs_carries [OF assms(2-4)] by blast
  moreover have "held a s chan_new = []" using w by (simp add: held_def)
  ultimately have "prefix (held a t c') (delivered_to a es)"
    and "chan_rx_open c' \<longrightarrow> held a t c' = delivered_to a es"
    by (auto simp: carries_def split: if_splits)
  then show ?thesis
    using \<open>hm_get (reg_clients (sv_reg t)) a = Some c'\<close>
    by (auto simp: held_def takes_messages_def inbox_def dest: append_prefixD)
qed

text \<open>A client connects to the idle server, sends a ping and gets the answer.\<close>

definition sv_idle :: server_state where
  "sv_idle = \<lparr>sv_reg = registry_start, sv_tasks = Map.empty, sv_wire = (\<lambda>_. [])\<rparr>"

definition sv_one :: server_state where
  "sv_one = sv_idle\<lparr>sv_reg := client_connected addr_a registry_start,
     sv_tasks := [addr_a \<mapsto> Serving], sv_wire := (\<lambda>_. [])(addr_a := [])\<rparr>"

lemma step_sv_one: "server_step sv_idle (Accept addr_a) sv_one"
  using sv_accept [of sv_idle addr_a] by (simp add: sv_idle_def sv_one_def)

definition sv_pinged :: server_state where
  "sv_pinged = sv_one\<lparr>sv_tasks := [addr_a \<mapsto> Busy (Sends [(addr_a, Pong)])]\<rparr>"

definition sv_ponged :: server_state where
  "sv_ponged = sv_one\<lparr>sv_reg := send_to addr_a Pong (sv_reg sv_one)\<rparr>"

lemma runs_sv_ponged:
  "runs server_step sv_one [Receive addr_a Ping, Deliver addr_a addr_a Pong] sv_ponged"
proof -
  have "server_step sv_one (Receive addr_a Ping) sv_pinged"
    using sv_receive [of sv_one addr_a "\<lambda>_. 0" Ping "sv_reg sv_one" "Sends [(addr_a, Pong)]"]
    by (simp add: sv_pinged_def sv_one_def sv_idle_def task_of_def)
  moreover have "server_step sv_pinged (Deliver addr_a addr_a Pong) sv_ponged"
    using sv_deliver [of sv_pinged addr_a addr_a Pong "[]" "send_to addr_a Pong (sv_reg sv_one)" "Sends []"]
    by (simp add: sv_pinged_def sv_ponged_def sv_one_def sv_idle_def task_of_def)
  ultimately show ?thesis by (blast intro: runs.intros)
qed

theorem delivery_in_order_witness:
  "prefix (sv_wire sv_ponged addr_a) [Pong] \<and> takes_messages (sv_reg sv_ponged) addr_a
    \<and> sv_wire sv_ponged addr_a @ inbox (sv_reg sv_ponged) addr_a = [Pong]"
proof -
  have "takes_messages (sv_reg sv_ponged) addr_a"
    by (simp add: sv_ponged_def) (simp add: takes_messages_def sv_one_def client_connected_def)
  then show ?thesis using delivery_in_order [OF step_sv_one runs_sv_ponged] by simp
qed

section \<open>Limits\<close>

text \<open>
  C37: a relay session belongs to whoever signaled last on its connection id: a client that
  names any registered host and the connection id of another pair takes the session over,
  and the answers of the host then go to this client and no longer to the joiner.
\<close>

theorem signal_session_rebound:
  assumes "hm_get (reg_sessions reg) conn = Some (a, host)"
    and "target \<noteq> 0" and "hm_get (reg_hosts reg) target = Some owner"
    and "c \<noteq> a" and "takes_messages reg c"
    and "reg1 = handle_message h c (ClientSignal target conn nc offer) reg"
    and "reg2 = handle_message h' host (ClientSignal 0 conn nh answer) reg1"
  shows "hm_get (reg_sessions reg1) conn = Some (c, owner)
    \<and> inbox reg2 c = inbox reg1 c @ [ServerSignal conn nh answer]
    \<and> inbox reg2 a = inbox reg1 a"
proof -
  have "hm_get (reg_sessions reg1) conn = Some (c, owner)" and "takes_messages reg1 c"
    using assms by (simp_all add: handle_signal_to_host)
  then show ?thesis using assms(4,7) by (simp add: handle_signal_to_joiner)
qed

theorem signal_session_rebound_witness:
  "let reg0 = handle_message (\<lambda>_. 0) addr_b (ClientSignal 5 9 2 (lit ''offer'')) reg_abc;
       reg1 = handle_message (\<lambda>_. 0) addr_c (ClientSignal 5 9 3 (lit ''x'')) reg0;
       reg2 = handle_message (\<lambda>_. 0) addr_a (ClientSignal 0 9 1 (lit ''answer'')) reg1
    in hm_get (reg_sessions reg1) 9 = Some (addr_c, addr_a)
     \<and> inbox reg2 addr_c = inbox reg1 addr_c @ [ServerSignal 9 1 (lit ''answer'')]
     \<and> inbox reg2 addr_b = inbox reg1 addr_b"
  unfolding Let_def
  by (rule signal_session_rebound [where h = "\<lambda>_. 0", OF _ _ _ _ _ refl refl])
    (simp_all add: handle_signal_to_host hm_eval)

text \<open>The host leaves between the lookup and the session insert of a join request.\<close>

lemma reachable_stale:
  assumes "reachable server_init server_step s" and "a \<noteq> b"
    and "sv_tasks s a = Some Serving" and "sv_tasks s b = Some Serving"
    and "hm_get (reg_hosts (sv_reg s)) target = Some a"
  shows "\<exists>t i. reachable server_init server_step t \<and> hm_get (reg_sessions (sv_reg t)) i = Some (b, a)
    \<and> sv_tasks t a = None \<and> sv_tasks t b \<noteq> None"
proof -
  let ?s1 = "s\<lparr>sv_reg := sv_reg s, sv_tasks := (sv_tasks s)(b \<mapsto> task_of (AllocSession a 0))\<rparr>"
  let ?s2 = "?s1\<lparr>sv_tasks := (sv_tasks ?s1)(a \<mapsto> Leaving)\<rparr>"
  let ?s3 = "?s2\<lparr>sv_reg := client_disconnected (\<lambda>_. 0) a (sv_reg ?s2), sv_tasks := (sv_tasks ?s2)(a := None)\<rparr>"
  obtain reg' p where n: "next_section b (AllocSession a 0) (sv_reg ?s3) = (reg', p)" by fastforce
  let ?s4 = "?s3\<lparr>sv_reg := reg', sv_tasks := (sv_tasks ?s3)(b \<mapsto> task_of p)\<rparr>"
  have "server_step s (Receive b (ConnectRequest target 0)) ?s1"
    by (rule sv_receive [OF assms(4), of "\<lambda>_. 0"]) (simp add: assms(5))
  moreover have "server_step ?s1 (Leave a) ?s2" by (rule sv_leave) (simp add: assms(2,3))
  moreover have "server_step ?s2 (Cleanup a) ?s3" by (rule sv_cleanup) simp
  moreover have "server_step ?s3 (Alloc b) ?s4"
    by (rule sv_alloc [OF _ n]) (use assms(2) in \<open>simp add: task_of_def\<close>)
  ultimately have "reachable server_init server_step ?s4"
    using assms(1) by (blast intro: reach_step)
  moreover have "hm_get (reg_sessions reg') (reg_next_session_id (sv_reg ?s3)) = Some (b, a)"
    using n by (auto simp: Let_def)
  ultimately show ?thesis using assms(2) by (intro exI [of _ ?s4] exI) auto
qed

text \<open>
  C36: the lookup of a join request and the insertion of its session are two critical
  sections, and a host may disconnect between them: the server can reach a state with a
  session whose host has no connection any more, which no cleanup of the host will remove.
\<close>

theorem stale_session_reachable:
  "\<exists>s i j host. reachable server_init server_step s \<and> hm_get (reg_sessions (sv_reg s)) i = Some (j, host)
    \<and> sv_tasks s host = None \<and> sv_tasks s j \<noteq> None"
  using reachable_stale [of sv_abc addr_a addr_b 5] by (fastforce simp: hm_get_def)

end
