(* ===== verification/Server_Progress.thy ===== *)
theory Server_Progress
  imports Server_Sessions Progress
begin

text \<open>
  Liveness of the rendezvous server on infinite runs: a handler finishes when its task is
  scheduled fairly, and queued messages reach the peer when its writer task is, whatever
  the other tasks do in between.
\<close>

section \<open>Handlers finish\<close>

definition busy :: "socket_addr \<Rightarrow> server_state \<Rightarrow> bool" where
  "busy a s \<longleftrightarrow> (\<exists>p. sv_tasks s a = Some (Busy p))"

definition work_left :: "server_state \<Rightarrow> bool" where
  "work_left s \<longleftrightarrow> (\<forall>a. sv_tasks s a \<noteq> Some (Busy (Sends [])))"

definition handler_event :: "socket_addr \<Rightarrow> server_event \<Rightarrow> bool" where
  "handler_event a e \<longleftrightarrow> e = Alloc a \<or> (\<exists>dest msg. e = Deliver a dest msg)"

definition handler_rank :: "socket_addr \<Rightarrow> server_state \<Rightarrow> nat" where
  "handler_rank a s = (case sv_tasks s a of Some (Busy p) \<Rightarrow> pending_size p | _ \<Rightarrow> 0)"

lemma task_of_work_left [simp]: "task_of p \<noteq> Busy (Sends [])"
  by (simp add: task_of_def)

lemma work_left_step: "work_left s \<Longrightarrow> server_step s e t \<Longrightarrow> work_left t"
  by (erule server_stepE) (auto simp: work_left_def)

interpretation work_left_sys: invariant_system server_init server_step work_left
proof unfold_locales
  fix s assume "server_init s"
  then show "work_left s" by (simp add: server_init_def work_left_def)
qed (rule work_left_step)

lemma next_section_smaller:
  "p \<noteq> Sends [] \<Longrightarrow> next_section a p reg = (reg', p') \<Longrightarrow> pending_size p' < pending_size p"
  by (cases "(a, p, reg)" rule: next_section.cases) (auto simp: Let_def)

lemma handler_rank_task_of:
  "sv_tasks s a = Some (task_of p) \<Longrightarrow> handler_rank a s = pending_size p"
  by (auto simp: handler_rank_def task_of_def)

lemma handler_steps:
  assumes "busy a s" and "work_left s" and "server_step s e t"
  shows "if handler_event a e then handler_rank a t < handler_rank a s else sv_tasks t a = sv_tasks s a"
  using assms(3)
proof cases
  case (sv_alloc b host j reg' p)
  then show ?thesis
    using next_section_smaller [of "AllocSession host j" b "sv_reg s" reg' p] handler_rank_task_of [of t b p]
    by (cases "b = a") (auto simp: handler_event_def handler_rank_def)
next
  case (sv_deliver b dest msg rest reg' p)
  then show ?thesis
    using next_section_smaller [of "Sends ((dest, msg) # rest)" b "sv_reg s" reg' p] handler_rank_task_of [of t b p]
    by (cases "b = a") (auto simp: handler_event_def handler_rank_def)
qed (use assms(1) in \<open>auto simp: handler_event_def busy_def\<close>)

lemma handler_enabled:
  assumes "busy a s" and "work_left s"
  shows "\<exists>e t. handler_event a e \<and> server_step s e t"
proof -
  obtain p where p: "sv_tasks s a = Some (Busy p)" "p \<noteq> Sends []"
    using assms by (auto simp: busy_def work_left_def)
  obtain reg' p' where n: "next_section a p (sv_reg s) = (reg', p')" by fastforce
  show ?thesis
  proof (cases p)
    case (Sends xs)
    then obtain dest msg rest where "xs = (dest, msg) # rest" using p(2) by (cases xs) auto
    then have "server_step s (Deliver a dest msg) (s\<lparr>sv_reg := reg', sv_tasks := (sv_tasks s)(a \<mapsto> task_of p')\<rparr>)"
      using sv_deliver [of s a dest msg rest reg' p'] p(1) n Sends by simp
    then show ?thesis unfolding handler_event_def by blast
  next
    case (AllocSession host j)
    then have "server_step s (Alloc a) (s\<lparr>sv_reg := reg', sv_tasks := (sv_tasks s)(a \<mapsto> task_of p')\<rparr>)"
      using sv_alloc [of s a host j reg' p'] p(1) n by simp
    then show ?thesis unfolding handler_event_def by blast
  qed
qed

interpretation handler_progress:
  leads_to server_step "handler_event a" "\<lambda>s. work_left s" "\<lambda>s. \<not> busy a s" "handler_rank a" for a
proof unfold_locales
  fix s e t
  assume w: "work_left s" and b: "\<not> \<not> busy a s" and st: "server_step s e t"
  show "\<not> busy a t \<or> work_left t \<and> handler_rank a t \<le> handler_rank a s"
    using handler_steps [of a s e t] w b st work_left_step [OF w st]
    by (auto simp: handler_rank_def split: if_splits)
  show "\<not> busy a t \<or> handler_rank a t < handler_rank a s" if "handler_event a e"
    using handler_steps [of a s e t] w b st that by simp
next
  fix s assume "work_left s" and "\<not> \<not> busy a s"
  then show "\<exists>e t. handler_event a e \<and> server_step s e t" using handler_enabled by blast
qed

text \<open>
  C10: no handler hangs: on every infinite run of the server on which the task of a
  connection is scheduled fairly, whenever this task is in the middle of a message, it
  finishes the message, no matter what all other connections, writers and cleanups do.
\<close>

theorem handlers_finish:
  assumes "server_init (ss 0)" and "infinite_run server_step ss es"
    and "weakly_fair server_step (handler_event a) ss es"
  shows "\<exists>j\<ge>i. \<not> busy a (ss j)"
  using handler_progress.reaches [OF assms(2,3)]
    work_left_sys.inv_reachable [OF infinite_run_reachable [of server_init, OF assms(1,2)]] by blast

section \<open>A run that never ends\<close>

text \<open>A client connects, pings, is answered, leaves, and connects again, for ever.\<close>

definition cycle_state :: "nat \<Rightarrow> server_state" where
  "cycle_state i = [sv_idle, sv_one, sv_pinged, sv_ponged, sv_ponged\<lparr>sv_tasks := [addr_a \<mapsto> Leaving]\<rparr>] ! (i mod 5)"

definition cycle_event :: "nat \<Rightarrow> server_event" where
  "cycle_event i = [Accept addr_a, Receive addr_a Ping, Deliver addr_a addr_a Pong, Leave addr_a, Cleanup addr_a] ! (i mod 5)"

lemma step_sv_pinged: "server_step sv_one (Receive addr_a Ping) sv_pinged"
  using sv_receive [of sv_one addr_a "\<lambda>_. 0" Ping "sv_reg sv_one" "Sends [(addr_a, Pong)]"]
  by (simp add: sv_pinged_def sv_one_def sv_idle_def task_of_def)

lemma step_sv_ponged: "server_step sv_pinged (Deliver addr_a addr_a Pong) sv_ponged"
  using sv_deliver [of sv_pinged addr_a addr_a Pong "[]" "send_to addr_a Pong (sv_reg sv_one)" "Sends []"]
  by (simp add: sv_pinged_def sv_ponged_def sv_one_def sv_idle_def task_of_def)

lemma step_sv_left: "server_step sv_ponged (Leave addr_a) (sv_ponged\<lparr>sv_tasks := [addr_a \<mapsto> Leaving]\<rparr>)"
  using sv_leave [of sv_ponged addr_a] by (simp add: sv_ponged_def sv_one_def)

lemma step_sv_idle: "server_step (sv_ponged\<lparr>sv_tasks := [addr_a \<mapsto> Leaving]\<rparr>) (Cleanup addr_a) sv_idle"
proof -
  have "client_disconnected (\<lambda>_. 0) addr_a (sv_reg sv_ponged) = registry_start"
    by (simp add: sv_ponged_def sv_one_def sv_idle_def client_disconnected_def client_connected_def send_to_def
        registry_start_def registry_default_def orphaned_def hm_eval)
  then show ?thesis
    using sv_cleanup [of "sv_ponged\<lparr>sv_tasks := [addr_a \<mapsto> Leaving]\<rparr>" addr_a "\<lambda>_. 0"]
    by (simp add: sv_ponged_def sv_one_def sv_idle_def fun_upd_idem)
qed

lemma cycle_run: "infinite_run server_step cycle_state cycle_event"
  unfolding infinite_run_def
proof
  fix i :: nat
  have "i mod 5 = 0 \<or> i mod 5 = 1 \<or> i mod 5 = 2 \<or> i mod 5 = 3 \<or> i mod 5 = 4" by linarith
  then show "server_step (cycle_state i) (cycle_event i) (cycle_state (Suc i))"
    using step_sv_one step_sv_pinged step_sv_ponged step_sv_left step_sv_idle
    by (elim disjE) (simp_all add: cycle_state_def cycle_event_def mod_Suc)
qed

lemma cycle_fair: "weakly_fair server_step (handler_event addr_a) cycle_state cycle_event"
  unfolding weakly_fair_def
proof (intro allI impI)
  fix i :: nat
  have "(5 * i + 2) mod 5 = 2" by presburger
  then show "\<exists>j\<ge>i. handler_event addr_a (cycle_event j)"
    by (intro exI [of _ "5 * i + 2"]) (simp add: cycle_event_def handler_event_def)
qed

theorem handlers_finish_witness:
  "busy addr_a (cycle_state 2) \<and> (\<exists>j\<ge>2. \<not> busy addr_a (cycle_state j))"
proof -
  have "server_init (cycle_state 0)" by (simp add: cycle_state_def server_init_def sv_idle_def)
  then have "\<exists>j\<ge>2. \<not> busy addr_a (cycle_state j)" using handlers_finish cycle_run cycle_fair by blast
  then show ?thesis by (simp add: busy_def cycle_state_def sv_pinged_def)
qed

section \<open>Messages arrive\<close>

definition writer_event :: "socket_addr \<Rightarrow> server_event \<Rightarrow> bool" where
  "writer_event a e \<longleftrightarrow> (\<exists>msg. e = WriteOut a msg)"

text \<open>\<open>arrived a all s\<close>: the peer got all of \<open>all\<close>, or its channel is gone.\<close>

definition arrived :: "socket_addr \<Rightarrow> server_message list \<Rightarrow> server_state \<Rightarrow> bool" where
  "arrived a all s \<longleftrightarrow> takes_messages (sv_reg s) a \<longrightarrow> prefix all (sv_wire s a)"

definition on_its_way :: "socket_addr \<Rightarrow> server_message list \<Rightarrow> server_state \<Rightarrow> bool" where
  "on_its_way a all s \<longleftrightarrow> server_inv s \<and>
     (takes_messages (sv_reg s) a \<longrightarrow> prefix all (sv_wire s a @ inbox (sv_reg s) a))"

lemma step_wire:
  assumes "server_step s e t" and "e \<noteq> Accept a"
  shows "\<exists>ms. sv_wire t a = sv_wire s a @ ms \<and> (writer_event a e \<longrightarrow> ms \<noteq> [])"
  using assms by (cases rule: server_step.cases) (auto simp: writer_event_def)

lemma takes_has_task: "server_inv s \<Longrightarrow> takes_messages (sv_reg s) a \<Longrightarrow> sv_tasks s a \<noteq> None"
  by (auto simp: server_inv_def reg_inv_def takes_messages_def dom_def split: option.splits)

lemma on_its_way_step:
  assumes "on_its_way a all s" and "\<not> arrived a all s" and "server_step s e t"
  shows "arrived a all t \<or> on_its_way a all t \<and> e \<noteq> Accept a"
proof (cases "takes_messages (sv_reg t) a")
  case True
  have inv: "server_inv s" and inv': "server_inv t" and takes: "takes_messages (sv_reg s) a"
    and all: "prefix all (sv_wire s a @ inbox (sv_reg s) a)"
    using assms server_inv_step by (auto simp: on_its_way_def arrived_def)
  have acc: "e \<noteq> Accept a"
    using assms(3) takes_has_task [OF inv takes] by (auto elim: server_stepE)
  have cl: "e \<noteq> Cleanup a"
    using assms(3) True by (auto elim!: server_stepE simp: takes_messages_def client_disconnected_def)
  obtain c where c: "hm_get (reg_clients (sv_reg s)) a = Some c" "chan_rx_open c"
    using takes by (auto simp: takes_messages_def split: option.splits)
  obtain c' where c': "hm_get (reg_clients (sv_reg t)) a = Some c'" "carries a s c t c' (delivered_to a [e])"
    using step_carries [OF assms(3) acc cl c(1)] by blast
  have "chan_rx_open c'" using True c'(1) by (simp add: takes_messages_def)
  then have "sv_wire t a @ inbox (sv_reg t) a = (sv_wire s a @ inbox (sv_reg s) a) @ delivered_to a [e]"
    using c(1) c' by (simp add: carries_def held_def inbox_def)
  then have "prefix all (sv_wire t a @ inbox (sv_reg t) a)" 
    using prefix_prefix [OF all] by simp
  then show ?thesis using acc inv' by (simp add: on_its_way_def)
qed (simp add: arrived_def)

lemma writer_enabled:
  assumes "on_its_way a all s" and "\<not> arrived a all s"
  shows "\<exists>e t. writer_event a e \<and> server_step s e t"
proof -
  have takes: "takes_messages (sv_reg s) a" and "prefix all (sv_wire s a @ inbox (sv_reg s) a)"
    and "\<not> prefix all (sv_wire s a)"
    using assms by (auto simp: on_its_way_def arrived_def)
  then have ne: "inbox (sv_reg s) a \<noteq> []" by auto
  obtain c where c: "hm_get (reg_clients (sv_reg s)) a = Some c"
    using takes by (auto simp: takes_messages_def split: option.splits)
  obtain m q where "chan_queue c = m # q" using ne c by (cases "chan_queue c") (auto simp: inbox_def)
  then show ?thesis
    using sv_write [OF c, of m "c\<lparr>chan_queue := q\<rparr>"] by (auto simp: chan_try_recv_def writer_event_def)
qed

interpretation delivery_progress:
  leads_to server_step "writer_event a" "on_its_way a all" "arrived a all"
    "\<lambda>s. length all - length (sv_wire s a)" for a all
proof unfold_locales
  fix s e t
  assume w: "on_its_way a all s" and g: "\<not> arrived a all s" and st: "server_step s e t"
  show "arrived a all t \<or> on_its_way a all t \<and> length all - length (sv_wire t a) \<le> length all - length (sv_wire s a)"
    using on_its_way_step [OF w g st] step_wire [OF st, of a] by fastforce
  show "arrived a all t \<or> length all - length (sv_wire t a) < length all - length (sv_wire s a)"
    if "writer_event a e"
  proof -
    have "\<not> prefix all (sv_wire s a)" and "prefix all (sv_wire s a @ inbox (sv_reg s) a)"
      using w g by (auto simp: on_its_way_def arrived_def)
    then have "length (sv_wire s a) < length all"
      using prefix_length_prefix [of all "sv_wire s a @ inbox (sv_reg s) a" "sv_wire s a"] by force
    moreover have "e \<noteq> Accept a" using that by (auto simp: writer_event_def)
    from step_wire [OF st this] that have "length (sv_wire s a) < length (sv_wire t a)" by auto
    ultimately have "length all - length (sv_wire t a) < length all - length (sv_wire s a)" by (rule diff_less_mono2 [rotated])
    then show ?thesis ..
  qed
next
  fix s assume "on_its_way a all s" and "\<not> arrived a all s"
  then show "\<exists>e t. writer_event a e \<and> server_step s e t" by (rule writer_enabled)
qed

text \<open>
  C9: every message handed to the channel of a connected peer reaches it: on every infinite
  run on which the writer task of the connection is scheduled fairly, all messages queued
  at some moment are written, after those written before and in their order, unless the
  writer fails or the connection ends first.
\<close>

theorem queued_messages_arrive:
  assumes "server_init (ss 0)" and "infinite_run server_step ss es"
    and "weakly_fair server_step (writer_event a) ss es"
  shows "\<exists>j\<ge>i. takes_messages (sv_reg (ss j)) a \<longrightarrow>
    prefix (sv_wire (ss i) a @ inbox (sv_reg (ss i)) a) (sv_wire (ss j) a)"
proof -
  let ?all = "sv_wire (ss i) a @ inbox (sv_reg (ss i)) a"
  have "server_inv (ss i)"
    using server_sys.inv_reachable [OF infinite_run_reachable [of server_init, OF assms(1,2)]] by blast
  then have "on_its_way a ?all (ss i)" by (simp add: on_its_way_def)
  then show ?thesis
    using delivery_progress.reaches [OF assms(2,3)] unfolding arrived_def by blast
qed

text \<open>The same cycle, with the answer written before the client leaves.\<close>

definition sv_answered :: server_state where
  "sv_answered = sv_one\<lparr>sv_wire := (\<lambda>_. [])(addr_a := [Pong])\<rparr>"

definition write_state :: "nat \<Rightarrow> server_state" where
  "write_state i = [sv_idle, sv_one, sv_pinged, sv_ponged, sv_answered,
     sv_answered\<lparr>sv_tasks := [addr_a \<mapsto> Leaving]\<rparr>, sv_answered\<lparr>sv_reg := registry_start, sv_tasks := Map.empty\<rparr>]
     ! (if i = 0 then 0 else Suc ((i - 1) mod 6))"

definition write_event :: "nat \<Rightarrow> server_event" where
  "write_event i = [Accept addr_a, Receive addr_a Ping, Deliver addr_a addr_a Pong, WriteOut addr_a Pong,
     Leave addr_a, Cleanup addr_a] ! (i mod 6)"

lemma step_sv_answered: "server_step sv_ponged (WriteOut addr_a Pong) sv_answered"
proof -
  have "hm_get (reg_clients (sv_reg sv_ponged)) addr_a = Some \<lparr>chan_queue = [Pong], chan_rx_open = True\<rparr>"
    by (simp add: sv_ponged_def sv_one_def sv_idle_def client_connected_def get_clients_send_to chan_send_def chan_new_def)
  moreover have "hm_insert addr_a chan_new (reg_clients (sv_reg sv_ponged)) = reg_clients (sv_reg sv_one)"
    by (simp add: sv_ponged_def sv_one_def sv_idle_def client_connected_def send_to_def registry_start_def
        registry_default_def hm_eval)
  ultimately show ?thesis
    using sv_write [of sv_ponged addr_a "\<lparr>chan_queue = [Pong], chan_rx_open = True\<rparr>" Pong chan_new]
    by (simp add: chan_try_recv_def chan_new_def sv_answered_def)
      (simp add: sv_ponged_def sv_one_def sv_idle_def send_to_def client_connected_def registry_start_def
        registry_default_def hm_eval chan_send_def chan_new_def)
qed

lemma step_answered_leave: "server_step sv_answered (Leave addr_a) (sv_answered\<lparr>sv_tasks := [addr_a \<mapsto> Leaving]\<rparr>)"
  using sv_leave [of sv_answered addr_a] by (simp add: sv_answered_def sv_one_def)

lemma step_answered_cleanup:
  "server_step (sv_answered\<lparr>sv_tasks := [addr_a \<mapsto> Leaving]\<rparr>) (Cleanup addr_a)
    (sv_answered\<lparr>sv_reg := registry_start, sv_tasks := Map.empty\<rparr>)"
proof -
  have "client_disconnected (\<lambda>_. 0) addr_a (sv_reg sv_answered) = registry_start"
    by (simp add: sv_answered_def sv_one_def sv_idle_def client_disconnected_def client_connected_def
        registry_start_def registry_default_def orphaned_def hm_eval)
  then show ?thesis
    using sv_cleanup [of "sv_answered\<lparr>sv_tasks := [addr_a \<mapsto> Leaving]\<rparr>" addr_a "\<lambda>_. 0"]
    by (simp add: sv_answered_def sv_one_def sv_idle_def)
qed

lemma step_answered_accept:
  "server_step (sv_answered\<lparr>sv_reg := registry_start, sv_tasks := Map.empty\<rparr>) (Accept addr_a) sv_one"
  using sv_accept [of "sv_answered\<lparr>sv_reg := registry_start, sv_tasks := Map.empty\<rparr>" addr_a]
  by (simp add: sv_answered_def sv_one_def sv_idle_def)

lemma write_run: "infinite_run server_step write_state write_event"
  unfolding infinite_run_def
proof
  fix i :: nat
  show "server_step (write_state i) (write_event i) (write_state (Suc i))"
  proof (cases i)
    case 0
    then show ?thesis using step_sv_one by (simp add: write_state_def write_event_def)
  next
    case (Suc k)
    have "k mod 6 = 0 \<or> k mod 6 = 1 \<or> k mod 6 = 2 \<or> k mod 6 = 3 \<or> k mod 6 = 4 \<or> k mod 6 = 5" by linarith
    then show ?thesis
      using Suc step_sv_pinged step_sv_ponged step_sv_answered step_answered_leave step_answered_cleanup
        step_answered_accept
      by (elim disjE) (simp_all add: write_state_def write_event_def mod_Suc)
  qed
qed

lemma write_fair: "weakly_fair server_step (writer_event addr_a) write_state write_event"
  unfolding weakly_fair_def
proof (intro allI impI)
  fix i :: nat
  have "(6 * i + 3) mod 6 = 3" by presburger
  then show "\<exists>j\<ge>i. writer_event addr_a (write_event j)"
    by (intro exI [of _ "6 * i + 3"]) (simp add: write_event_def writer_event_def)
qed

theorem queued_messages_arrive_witness:
  "inbox (sv_reg (write_state 3)) addr_a = [Pong] \<and>
    (\<exists>j\<ge>3. takes_messages (sv_reg (write_state j)) addr_a \<longrightarrow>
      prefix (sv_wire (write_state 3) addr_a @ inbox (sv_reg (write_state 3)) addr_a) (sv_wire (write_state j) addr_a))"
proof -
  have "server_init (write_state 0)" by (simp add: write_state_def server_init_def sv_idle_def)
  moreover have "inbox (sv_reg (write_state 3)) addr_a = [Pong]"
    by (simp add: write_state_def sv_ponged_def sv_one_def)
      (simp add: inbox_def takes_messages_def client_connected_def)
  ultimately show ?thesis using queued_messages_arrive [OF _ write_run write_fair] by blast
qed

end
