(* ===== verification/Client_Properties.thy ===== *)
theory Client_Properties
  imports Client_Machine
begin

text \<open>
  What the node client guarantees on every interleaving of its tasks: its messages follow
  the registration protocol, what it announced on the current connection is what the game
  does, and its handles belong to one connection; and two ways in which it keeps something
  from an earlier phase of the game.
\<close>

section \<open>Example states\<close>

definition sample_env :: "u8 list client_env" where
  "sample_env =
     \<lparr>ce_me = 7, ce_to_vec = (\<lambda>_. Ok [1]), ce_codec = example_codec,
      ce_marshal_message = (\<lambda>recipient data sender. Ok [ucast recipient, ucast sender])\<rparr>"

definition fresh_writer :: writer where
  "fresh_writer = \<lparr>wbuf = [], wlimit = None, wflush = None\<rparr>"

definition cl_online :: client_state where
  "cl_online = connection_phase 0 (Ok fresh_writer) (client_start 0)"

definition cl_hosting :: client_state where
  "cl_hosting = game_phase sample_env 0 (Hosting, Some (9, default_advertisement)) cl_online"

lemma cl_online_eval [simp]:
  "cl_pc cl_online = AtGame" "cl_server cl_online = Some 0" "cl_registered_ad cl_online = None"
  "\<not> cl_hosting_registered cl_online" "cl_advertised_count cl_online = 0" "cl_adverts cl_online = hm_new"
  "cl_conns cl_online 0 = fresh_writer" "cl_local_game_id cl_online = None"
  by (simp_all add: cl_online_def connection_phase_def reap_reader_def connection_lost_def client_start_def
      connected_def)

lemma reachable_online: "reachable client_init (client_step sample_env) cl_online"
proof (rule reach_step)
  show "reachable client_init (client_step sample_env) (client_start 0)"
    by (rule reach_init) (auto simp: client_init_def)
  show "client_step sample_env (client_start 0) (EvConnection 0 (Ok fresh_writer)) cl_online"
    unfolding cl_online_def by (rule cs_connection) (auto simp: client_start_def fresh_writer_def)
qed

lemma reachable_hosting: "reachable client_init (client_step sample_env) cl_hosting"
  unfolding cl_hosting_def
  using reachable_online by (rule reach_step) (rule cs_game, simp)

lemma send_online:
  "cl_server s = Some c \<Longrightarrow> healthy (cl_conns s c) \<Longrightarrow> cl_server (send_or_drop sample_env m s) = Some c"
  by (simp add: send_or_drop_def write_on_def write_message_healthy sample_env_def)

lemma cl_hosting_eval [simp]: "cl_server cl_hosting = Some 0"
  by (simp add: cl_hosting_def game_phase_def game_hosting_def send_online healthy_def fresh_writer_def Let_def)

section \<open>The registration protocol\<close>

lemma written_read:
  assumes "written env ms w" and "\<forall>m\<in>set ms. encodable (ce_to_vec env) from_slice m"
  shows "\<exists>k. fst (read_messages from_slice \<lparr>rbuf = wbuf w, rend = e\<rparr>) = take k ms"
proof -
  have "\<forall>m\<in>set ms. is_ok (ce_to_vec env m)" using assms(2) by (fastforce elim: encodableE)
  then have "prefix (wbuf w) (frames (ce_to_vec env) ms)" using assms(1) by (rule written_prefix [rotated])
  then have "wbuf w = take (length (wbuf w)) (frames (ce_to_vec env) ms)"
    by (auto simp: prefix_def)
  then show ?thesis using read_messages_take_frames [OF assms(2)] by metis
qed

text \<open>
  C6: on every connection the client ever makes, under every interleaving of its tasks and
  every failure of its writes, the messages it writes follow the registration protocol: it
  registers its world only when none is registered on this connection, updates and
  unregisters only what it registered there, always under its own id; the server reads a
  prefix of these messages; and on the current connection they announce exactly the world
  the client has recorded as registered.
\<close>

theorem client_protocol:
  assumes "reachable client_init (client_step env) s"
  shows "\<exists>ms. written env ms (cl_conns s c) \<and> protocol (ce_me env) None ms
    \<and> (cl_server s = Some c \<longrightarrow> announced ms = cl_registered_ad s)
    \<and> (\<forall>from_slice e. (\<forall>m\<in>set ms. encodable (ce_to_vec env) from_slice m) \<longrightarrow>
        (\<exists>k. fst (read_messages from_slice \<lparr>rbuf = wbuf (cl_conns s c), rend = e\<rparr>) = take k ms))"
proof -
  have "conn_inv env s c"
    using client_sys.inv_reachable [OF assms] by (simp add: client_inv_def proto_inv_def)
  then show ?thesis using written_read unfolding conn_inv_def by blast
qed

theorem client_protocol_witness:
  "\<exists>ms. written sample_env ms (cl_conns cl_hosting 0) \<and> protocol (ce_me sample_env) None ms
    \<and> (cl_server cl_hosting = Some 0 \<longrightarrow> announced ms = cl_registered_ad cl_hosting)
    \<and> (\<forall>from_slice e. (\<forall>m\<in>set ms. encodable (ce_to_vec sample_env) from_slice m) \<longrightarrow>
        (\<exists>k. fst (read_messages from_slice \<lparr>rbuf = wbuf (cl_conns cl_hosting 0), rend = e\<rparr>) = take k ms))"
  by (rule client_protocol) (rule reachable_hosting)

text \<open>The world that a detection result stands for.\<close>

definition detected_world ::
  "'p client_env \<Rightarrow> game_state \<times> (u64 \<times> server_advertisement) option \<Rightarrow> server_advertisement option" where
  "detected_world env detected =
     (if fst detected \<noteq> Hosting then None
      else case snd detected of Some (_, ad) \<Rightarrow> Some ad | None \<Rightarrow> Some (fallback_ad env))"

lemma registered_after_hosting:
  "cl_server (game_hosting env world s) \<noteq> None \<Longrightarrow>
    cl_registered_ad (game_hosting env world s) =
      Some (case world of Some (_, ad) \<Rightarrow> ad | None \<Rightarrow> fallback_ad env)"
  by (auto simp: game_hosting_def Let_def split: option.splits if_splits)

lemma registered_after_unregister:
  assumes "cl_server s \<noteq> None \<longrightarrow> cl_hosting_registered s = (cl_registered_ad s \<noteq> None)"
    and "cl_server s \<noteq> None"
  shows "cl_registered_ad (unregister env s) = None"
  using assms by (auto simp: unregister_def)

lemma registered_after_game_phase:
  assumes "proto_inv env s" and "cl_server s \<noteq> None" and "cl_server (game_phase env now detected s) \<noteq> None"
  shows "cl_registered_ad (game_phase env now detected s) = detected_world env detected"
proof -
  have u: "cl_registered_ad (unregister env s) = None"
    using assms(1,2) by (intro registered_after_unregister) (simp_all add: proto_inv_def)
  obtain g world where d: "detected = (g, world)" by fastforce
  show ?thesis
  proof (cases g)
    case Hosting
    then show ?thesis
      using assms(3) registered_after_hosting [of env world s] d
      by (auto simp: game_phase_def detected_world_def split: option.splits)
  next
    case GameClosed
    then show ?thesis using d u by (simp add: game_phase_def detected_world_def game_closed_def)
  next
    case Browsing
    then show ?thesis
      using d u by (auto simp: game_phase_def detected_world_def game_browsing_def fetch_request_def fetch_failed_def Let_def
          case_prod_beta split: option.splits)
  qed
qed

lemma announced_after_game:
  assumes "reachable client_init (client_step env) s" and "cl_pc s = AtGame"
    and "t = game_phase env now detected s" and "cl_server t = Some c"
  shows "\<exists>ms. written env ms (cl_conns t c) \<and> protocol (ce_me env) None ms
    \<and> announced ms = detected_world env detected"
proof -
  have inv: "client_inv env s" using assms(1) by (rule client_sys.inv_reachable)
  then have t: "client_inv env t"
    using client_sys.inv_step [OF inv cs_game [OF assms(2), of env now detected]] assms(3) by simp
  have "cl_server s \<noteq> None" using inv assms(2) by (simp add: client_inv_def handle_inv_def)
  then have "cl_registered_ad t = detected_world env detected"
    using inv assms(3,4) registered_after_game_phase [of env s now detected] by (simp add: client_inv_def)
  moreover have "conn_inv env t c" using t by (simp add: client_inv_def proto_inv_def)
  ultimately show ?thesis using assms(4) by (auto simp: conn_inv_def)
qed

text \<open>
  Whenever the main loop has looked at the game and its connection is still there, the
  messages on this connection announce exactly what the game does: the current world while
  it hosts, also right after a reconnect or a change of the world, and nothing while it is
  closed or browses.
\<close>

lemma announced_matches_game:
  assumes "reachable client_init (client_step env) s" and "cl_pc s = AtGame"
    and "t = game_phase env now detected s" and "cl_server t = Some c"
  shows "\<exists>ms. written env ms (cl_conns t c) \<and> protocol (ce_me env) None ms
    \<and> announced ms = detected_world env detected"
  using assms by (rule announced_after_game)

section \<open>Handles\<close>

text \<open>The tasks that were aborted belong to earlier connections.\<close>

definition readers_inv :: "client_state \<Rightarrow> bool" where
  "readers_inv s \<longleftrightarrow> (\<forall>c\<in>set (cl_readers s) \<union> set (cl_aborted s). c < cl_next s)
     \<and> (\<forall>c. cl_reader_task s = Some c \<longrightarrow> c < cl_next s \<and> c \<notin> set (cl_aborted s))"

lemma readers_inv_sameI:
  "readers_inv s \<Longrightarrow> cl_readers t = cl_readers s \<Longrightarrow> cl_aborted t = cl_aborted s \<Longrightarrow> cl_next t = cl_next s \<Longrightarrow>
    cl_reader_task t = cl_reader_task s \<Longrightarrow> readers_inv t"
  by (simp add: readers_inv_def)

lemma readers_inv_connection_phase: "readers_inv s \<Longrightarrow> readers_inv (connection_phase now connect s)"
  by (auto simp: readers_inv_def connection_phase_def connected_def reap_reader_def Let_def less_Suc_eq
      split: option.splits sum.splits)

lemma readers_inv_game_phase: "readers_inv s \<Longrightarrow> readers_inv (game_phase env now detected s)"
  by (cases detected; cases "fst detected"; erule readers_inv_sameI)
    (simp_all add: game_phase_def game_closed_def game_hosting_sel game_browsing_def fetch_request_def fetch_failed_def
      Let_def case_prod_beta split: option.split)

lemma readers_inv_step:
  assumes "readers_inv s" and "client_step env s e t"
  shows "readers_inv t"
  using assms(2)
proof cases
  case (cs_fetch d h)
  then show ?thesis
    using assms(1)
    by (cases rule: fetch_turn_cases [of env h s]) (auto simp: readers_inv_def fetched_def fetch_failed_def Let_def)
next
  case (cs_reader_message c now msg)
  then show ?thesis using assms(1) by (cases msg) (simp_all add: readers_inv_def reader_message_def Let_def)
next
  case (cs_signal target signal)
  then show ?thesis
    using assms(1) by (auto simp: readers_inv_def forward_signal_def Let_def split: option.splits)
next
  case (cs_connection connect now)
  then show ?thesis using assms(1) readers_inv_connection_phase by blast
next
  case (cs_game now detected)
  then show ?thesis using assms(1) readers_inv_game_phase by blast
qed (use assms(1) in \<open>auto simp: readers_inv_def fetch_timeout_def fetch_failed_def heartbeat_def reader_end_def
  reader_cancelled_def\<close>)

interpretation readers_sys: invariant_system client_init "client_step env" readers_inv for env
proof unfold_locales
  show "client_init s \<Longrightarrow> readers_inv s" for s
    by (auto simp: client_init_def client_start_def readers_inv_def)
qed (rule readers_inv_step)

text \<open>
  C21: of the reader tasks that exist at any time, all but at most one have been told to
  stop; that one is the task whose abort handle the client holds, and a task that was told to
  stop never belongs to the current connection. While the client is connected, the writer
  shared with the forwarding task, the receiver of the host lists and the abort handle all
  belong to the current connection.
\<close>

theorem client_handles_agree:
  assumes "reachable client_init (client_step env) s"
  shows "(\<forall>c d. c \<in> set (cl_readers s) \<and> d \<in> set (cl_readers s) \<longrightarrow> c = d)
    \<and> (\<forall>c\<in>set (cl_readers s). cl_reader_task s = Some c)
    \<and> (\<forall>c\<in>set (cl_aborted s). c \<notin> set (cl_readers s) \<and> cl_reader_task s \<noteq> Some c \<and> cl_server s \<noteq> Some c)
    \<and> (\<forall>c. cl_server s = Some c \<longrightarrow>
        cl_server_writer s = Some c \<and> cl_incoming s = Some c \<and> cl_reader_task s = Some c)"
proof -
  have "handle_inv s" using client_sys.inv_reachable [OF assms] by (simp add: client_inv_def)
  then have a: "\<forall>c\<in>set (cl_readers s). cl_reader_task s = Some c"
      "\<forall>c. cl_server s = Some c \<longrightarrow>
        cl_server_writer s = Some c \<and> cl_incoming s = Some c \<and> cl_reader_task s = Some c"
    by (simp_all add: handle_inv_def)
  have "cl_reader_task s \<noteq> Some c" if "c \<in> set (cl_aborted s)" for c
    using readers_sys.inv_reachable [OF assms] that by (auto simp: readers_inv_def)
  moreover have "c \<notin> set (cl_readers s)" and "cl_server s \<noteq> Some c" if "cl_reader_task s \<noteq> Some c" for c
    using a that by auto
  moreover have "c = d" if "c \<in> set (cl_readers s)" and "d \<in> set (cl_readers s)" for c d
    using bspec [OF a(1) that(1)] bspec [OF a(1) that(2)] by simp
  ultimately show ?thesis using a by blast
qed

lemma cl_hosting_readers: "cl_readers cl_hosting = [0]"
  by (simp add: cl_hosting_def game_phase_def game_hosting_sel)
    (simp add: cl_online_def connection_phase_def reap_reader_def connection_lost_def client_start_def
      connected_def)

text \<open>The same client after its connection fell silent and was replaced while its reader was busy.\<close>

definition cl_silent :: client_state where
  "cl_silent = connection_phase 50000 (Err early_eof) (heartbeat sample_env 1 cl_hosting)"

definition cl_replaced :: client_state where
  "cl_replaced = connection_phase 50000 (Ok fresh_writer) cl_silent"

lemma cl_hosting_handles:
  "cl_pc cl_hosting = AtPing" "cl_aborted cl_hosting = []" "cl_next cl_hosting = 1" "cl_reader_task cl_hosting = Some 0"
  "cl_last_seen cl_hosting = 0" "cl_last_ping cl_hosting = 0"
  by (simp_all add: cl_hosting_def game_phase_def game_hosting_def send_or_drop_def write_on_def write_message_healthy
      healthy_def fresh_writer_def sample_env_def withdraw_adverts_def Let_def)
    (simp_all add: cl_online_def connection_phase_def reap_reader_def connection_lost_def client_start_def connected_def)

lemma cl_replaced_handles:
  "cl_readers cl_replaced = [1]" "cl_aborted cl_replaced = [0]" "cl_server cl_replaced = Some 1"
  "cl_reader_alive cl_replaced"
  by (simp_all add: cl_replaced_def cl_silent_def connection_phase_def reap_reader_def connection_lost_def connected_def
      heartbeat_def cl_hosting_handles cl_hosting_readers PING_INTERVAL_def LIVENESS_TIMEOUT_def Let_def)

lemma reachable_replaced: "reachable client_init (client_step sample_env) cl_replaced"
proof -
  let ?s = "heartbeat sample_env 1 cl_hosting"
  have "client_step sample_env cl_hosting (EvHeartbeat 1) ?s" by (rule cs_heartbeat) (simp add: cl_hosting_handles)
  with reachable_hosting have r: "reachable client_init (client_step sample_env) ?s" by (rule reach_step)
  have "client_step sample_env ?s (EvConnection 50000 (Err early_eof)) cl_silent"
    unfolding cl_silent_def by (rule cs_connection) (simp_all add: heartbeat_def)
  with r have "reachable client_init (client_step sample_env) cl_silent" by (rule reach_step)
  moreover have "cl_pc cl_silent = AtTop"
    by (simp add: cl_silent_def connection_phase_def reap_reader_def connection_lost_def heartbeat_def
        cl_hosting_handles PING_INTERVAL_def LIVENESS_TIMEOUT_def Let_def)
  then have "client_step sample_env cl_silent (EvConnection 50000 (Ok fresh_writer)) cl_replaced"
    unfolding cl_replaced_def by (rule cs_connection) (simp add: fresh_writer_def)
  ultimately show ?thesis by (rule reach_step)
qed

theorem client_handles_agree_witness:
  "cl_readers cl_replaced = [1] \<and> cl_aborted cl_replaced = [0] \<and> cl_reader_task cl_replaced = Some 1
    \<and> cl_server_writer cl_replaced = Some 1 \<and> cl_incoming cl_replaced = Some 1 \<and> 0 \<notin> set (cl_readers cl_replaced)"
  using client_handles_agree [OF reachable_replaced] cl_replaced_handles by simp

section \<open>Limits\<close>

text \<open>
  C28: the flag that says whether the reader task is alive is shared by the tasks of all
  connections, and an aborted task may still reach its end: when the old reader ends after a
  reconnect, the client takes its new connection, whose own reader runs, for dead and drops it.
\<close>

theorem aborted_reader_drops_connection:
  assumes "reachable client_init (client_step env) s" and "cl_server s = Some c" and "c \<in> set (cl_readers s)"
    and "old \<in> set (cl_aborted s)" and "t = reader_end old s"
  shows "client_step env s (EvReaderEnd old) t \<and> old \<noteq> c \<and> c \<in> set (cl_readers t)
    \<and> connection_lost now t \<and> cl_server (connection_phase now connect t) = None"
proof -
  have "c \<noteq> old"
    using assms(2-4) client_sys.inv_reachable [OF assms(1)] readers_sys.inv_reachable [OF assms(1)]
    by (auto simp: client_inv_def handle_inv_def readers_inv_def)
  moreover have "client_step env s (EvReaderEnd old) t"
    unfolding assms(5) by (rule cs_reader_end) (use assms(4) in simp)
  moreover have "connection_lost now t" using assms(2,5) by (simp add: connection_lost_def reader_end_def)
  moreover have "reap_reader t = t" using assms(2,5) by (simp add: reap_reader_def reader_end_def)
  ultimately show ?thesis
    using assms(3,5) by (auto simp: connection_phase_def reader_end_def)
qed

theorem aborted_reader_drops_connection_witness:
  "cl_reader_alive cl_replaced \<and> client_step sample_env cl_replaced (EvReaderEnd 0) (reader_end 0 cl_replaced)
    \<and> 1 \<in> set (cl_readers (reader_end 0 cl_replaced)) \<and> connection_lost 50001 (reader_end 0 cl_replaced)
    \<and> cl_server (connection_phase 50001 (Err early_eof) (reader_end 0 cl_replaced)) = None"
  using aborted_reader_drops_connection [OF reachable_replaced _ _ _ refl, of 1 0 50001 "Err early_eof"]
    cl_replaced_handles by simp

lemma local_game_connection_phase [simp]:
  "cl_local_game_id (connection_phase now connect s) = cl_local_game_id s"
  by (auto simp: connection_phase_def reap_reader_def connected_def Let_def split: option.splits sum.splits)

text \<open>
  C38: the id of a hosted game outlives a reconnect: when the connection is replaced while
  the game hosts and the user then leaves the world, the id is not cleared, because the new
  connection has forgotten the registration; from then on every signal, also the answers to
  the user's own joins, is addressed to the game as if it still hosted.
\<close>

theorem local_game_survives_reconnect:
  assumes "cl_local_game_id s = Some g" and "cl_server s = None"
    and "t = game_phase env now' (Browsing, None) (connection_phase now (Ok w) s)"
  shows "cl_local_game_id t = Some g \<and> signal_route conn joiner t = Some (joiner, g)"
proof -
  let ?s1 = "connection_phase now (Ok w) s"
  have "\<not> cl_hosting_registered ?s1"
    using assms(2) by (auto simp: connection_phase_def reap_reader_def connection_lost_def connected_def Let_def
        split: option.splits)
  then have "unregister env ?s1 = ?s1" by (simp add: unregister_def)
  then have "cl_local_game_id t = Some g"
    using assms(1,3) by (auto simp: game_phase_def game_browsing_def fetch_request_def fetch_failed_def Let_def case_prod_beta
        split: option.splits)
  then show ?thesis by (simp add: signal_route_def)
qed

theorem local_game_survives_reconnect_witness:
  "let s = cl_hosting\<lparr>cl_server := None\<rparr>;
       t = game_phase sample_env 5 (Browsing, None) (connection_phase 5 (Ok fresh_writer) s)
    in cl_local_game_id t = Some 9 \<and> signal_route 33 44 t = Some (44, 9)"
  unfolding Let_def
  by (rule local_game_survives_reconnect [OF _ _ refl])
    (simp_all add: cl_hosting_def game_phase_def game_hosting_def Let_def)

text \<open>
  C39: the client advertises its own hosted world into the local game without counting it,
  so closing the game does not withdraw it: the entry stays in the advertised set and the
  heartbeat goes on sending it.
\<close>

theorem own_world_stays_advertised:
  assumes "\<not> cl_hosting_registered s" and "cl_advertised_count s = 0"
    and "build_response_packet (ce_codec env) (ce_me env) ad = Ok packet"
    and "t = game_closed env (game_hosting env (Some (g, ad)) s)"
  shows "hm_get (cl_adverts t) (ce_me env) = Some \<lparr>ca_data = ad, ca_packet = packet\<rparr>"
  using assms
  by (auto simp: game_closed_def game_hosting_def withdraw_adverts_def update_host_def advertise_def Let_def)

theorem own_world_stays_advertised_witness:
  "hm_get (cl_adverts (game_closed sample_env (game_hosting sample_env (Some (9, default_advertisement)) cl_online))) 7
    = Some \<lparr>ca_data = default_advertisement, ca_packet = [7, 0]\<rparr>"
  using own_world_stays_advertised [of cl_online sample_env default_advertisement "[7, 0]" _ 9, OF _ _ _ refl]
  by (simp add: sample_env_def example_codec_eval)

end
