(* ===== verification/Client_Progress.thy ===== *)
theory Client_Progress
  imports Client_Properties Progress Server
begin

text \<open>
  The node client over time: it recovers from a lost connection, a wait for a host list
  ends, its pings come often enough for the server not to drop it, and its reader task
  takes the messages of a connection one by one.
\<close>

section \<open>Recovery\<close>

lemma connection_phase_lost:
  assumes "cl_server s = Some c" and "connection_lost now s"
  shows "connection_phase now connect s = s\<lparr>cl_server := None, cl_pc := AtTop\<rparr>"
proof -
  have "reap_reader s = s" using assms(1) by (simp add: reap_reader_def)
  then show ?thesis using assms(2) by (simp add: connection_phase_def)
qed

lemma reap_dropped:
  assumes "handle_inv s" and "cl_server s = None"
  shows "cl_readers (reap_reader s) = [] \<and> cl_server (reap_reader s) = None \<and> cl_server_writer (reap_reader s) = None"
proof (cases "cl_reader_task s")
  case None
  then have "cl_readers s = []" and "cl_server_writer s = None"
    using assms(1) unfolding handle_inv_def
    by (metis last_in_set option.distinct(1), metis not_None_eq)
  then show ?thesis using None assms(2) by (simp add: reap_reader_def)
next
  case (Some c)
  have "removeAll c (cl_readers s) = []"
    using assms(1) Some unfolding handle_inv_def by (auto simp: removeAll_filter_not_eq filter_empty_conv)
  then show ?thesis using Some assms(2) by (simp add: reap_reader_def)
qed

lemma game_hosting_fresh:
  assumes "cl_server s = Some c" and "\<not> cl_hosting_registered s" and "healthy (cl_conns s c)"
    and "ce_to_vec env (RegisterHost \<lparr>sender_id = ce_me env, ad_data = ad\<rparr>) = Ok p"
    and "t = game_hosting env (Some (g, ad)) s"
  shows "cl_server t = Some c \<and> wbuf (cl_conns t c) = wbuf (cl_conns s c) @ frame_bytes p
    \<and> cl_registered_ad t = Some ad \<and> cl_readers t = cl_readers s \<and> cl_local_game_id t = Some g"
  using assms by (simp add: game_hosting_def Let_def send_or_drop_def write_on_def write_message_healthy)

text \<open>
  C11: the client recovers: when the connection is lost while the game hosts, two turns of
  the main loop replace it by a new one, and as soon as the game has been looked at again
  the new connection carries exactly the registration of the world; the reader task of the
  lost connection has ended or was told to stop, and the one of the new connection runs.
\<close>

theorem client_recovers:
  assumes "reachable client_init (client_step env) s" and "cl_server s = Some old" and "connection_lost now s"
    and "s1 = connection_phase now connect s" and "s2 = connection_phase now' (Ok w) s1"
    and "t = game_phase env now'' (Hosting, Some (g, ad)) s2"
    and "healthy w" and "wbuf w = []"
    and "ce_to_vec env (RegisterHost \<lparr>sender_id = ce_me env, ad_data = ad\<rparr>) = Ok p"
  shows "\<exists>c. cl_server t = Some c \<and> wbuf (cl_conns t c) = frame_bytes p \<and> cl_registered_ad t = Some ad
    \<and> cl_readers t = [c] \<and> cl_local_game_id t = Some g"
proof -
  have s1: "s1 = s\<lparr>cl_server := None, cl_pc := AtTop\<rparr>"
    using connection_phase_lost [OF assms(2,3)] assms(4) by simp
  have "handle_inv s" using client_sys.inv_reachable [OF assms(1)] by (simp add: client_inv_def)
  then have "handle_inv s1" using handle_inv_connection_phase assms(4) by blast
  then have r: "cl_readers (reap_reader s1) = []" "cl_server (reap_reader s1) = None"
    using reap_dropped [of s1] s1 by auto
  let ?c = "cl_next (reap_reader s1)"
  have "s2 = (connected now' w (reap_reader s1))\<lparr>cl_pc := AtGame\<rparr>"
    using assms(5) r(2) by (simp add: connection_phase_def connection_lost_def Let_def)
  then have s2: "cl_server s2 = Some ?c" "\<not> cl_hosting_registered s2" "cl_conns s2 ?c = w" "cl_readers s2 = [?c]"
    using r(1) by (simp_all add: connected_def Let_def)
  have "t = game_hosting env (Some (g, ad)) s2" using assms(6) by (simp add: game_phase_def)
  then show ?thesis
    using game_hosting_fresh [OF s2(1,2) _ assms(9)] s2(3,4) assms(7,8) by fastforce
qed

theorem client_recovers_witness:
  "let s = reader_end 0 cl_hosting; s1 = connection_phase 9 (Err early_eof) s;
       s2 = connection_phase 9 (Ok fresh_writer) s1;
       t = game_phase sample_env 9 (Hosting, Some (9, default_advertisement)) s2
    in \<exists>c. cl_server t = Some c \<and> wbuf (cl_conns t c) = frame_bytes [1] \<and> cl_registered_ad t = Some default_advertisement
      \<and> cl_readers t = [c] \<and> cl_local_game_id t = Some 9"
proof -
  have "0 \<in> set (cl_readers cl_hosting)" by (simp add: cl_hosting_readers)
  then have "client_step sample_env cl_hosting (EvReaderEnd 0) (reader_end 0 cl_hosting)" by (intro cs_reader_end) simp
  with reachable_hosting have r: "reachable client_init (client_step sample_env) (reader_end 0 cl_hosting)"
    by (rule reach_step)
  show ?thesis
    unfolding Let_def
    by (rule client_recovers [OF r _ _ refl refl refl, of 0])
      (simp_all add: reader_end_def connection_lost_def healthy_def fresh_writer_def sample_env_def)
qed

section \<open>Waiting for a host list\<close>

definition waiting_until :: "millis \<Rightarrow> client_state \<Rightarrow> bool" where
  "waiting_until d s \<longleftrightarrow> cl_pc s = AtFetch d"

definition timeout_event :: "millis \<Rightarrow> client_event \<Rightarrow> bool" where
  "timeout_event d e \<longleftrightarrow> (\<exists>now\<ge>d. e = EvFetchTimeout now)"

lemma reader_message_pc [simp]: "cl_pc (fst (reader_message env c now msg s)) = cl_pc s"
  by (cases msg) (simp_all add: reader_message_def Let_def)

lemma forward_signal_pc [simp]: "cl_pc (forward_signal env target signal s) = cl_pc s"
  by (auto simp: forward_signal_def Let_def split: option.splits)

lemma waiting_step:
  assumes "waiting_until d s" and "client_step env s e t"
  shows "\<not> waiting_until d t \<or> \<not> timeout_event d e"
  using assms(2,1)
  by (cases rule: client_step.cases)
    (auto simp: waiting_until_def timeout_event_def fetch_timeout_def fetch_failed_def)

interpretation fetch_progress:
  leads_to "client_step env" "timeout_event d" "\<lambda>_. True" "\<lambda>s. \<not> waiting_until d s" "\<lambda>_. 0" for env d
proof unfold_locales
  fix s e t
  assume "\<not> \<not> waiting_until d s" and "client_step env s e t" and "timeout_event d e"
  then show "\<not> waiting_until d t \<or> (0::nat) < 0" using waiting_step by blast
next
  fix s assume "\<not> \<not> waiting_until d s"
  then have "client_step env s (EvFetchTimeout d) (fetch_timeout d d s)"
    by (intro cs_fetch_timeout) (simp add: waiting_until_def)
  then show "\<exists>e t. timeout_event d e \<and> client_step env s e t" unfolding timeout_event_def by blast
qed simp

lemma fetch_wait_ends:
  "infinite_run (client_step env) ss es \<Longrightarrow> weakly_fair (client_step env) (timeout_event d) ss es \<Longrightarrow>
    \<exists>j\<ge>i. \<not> waiting_until d (ss j)"
  using fetch_progress.reaches by blast

end
