(* ===== verification/Client_Timing.thy ===== *)
theory Client_Timing
  imports Client_Progress
begin

text \<open>
  The node client beside a clock: with the pauses its main loop makes, its pings come often
  enough for the rendezvous server never to find the connection idle for too long.
\<close>

section \<open>Pings come in time\<close>

text \<open>The time an event carries, if it carries one.\<close>

fun event_time :: "client_event \<Rightarrow> millis option" where
  "event_time (EvConnection now connect) = Some now"
| "event_time (EvGame now detected) = Some now"
| "event_time (EvFetchTimeout now) = Some now"
| "event_time (EvHeartbeat now) = Some now"
| "event_time (EvReaderMessage c now msg) = Some now"
| "event_time _ = None"

text \<open>
  The client beside a clock: the current time, when the main loop last passed its heartbeat
  or made a connection, and when a byte last left on the current connection (or it was made).
\<close>

record timed_client =
  tc_client :: client_state
  tc_now :: millis
  tc_beat :: millis
  tc_sent :: millis

definition fresh_connection :: "client_state \<Rightarrow> client_state \<Rightarrow> bool" where
  "fresh_connection s s' \<longleftrightarrow> cl_server s' \<noteq> None \<and> cl_server s' \<noteq> cl_server s"

definition is_heartbeat :: "client_event \<Rightarrow> bool" where
  "is_heartbeat e \<longleftrightarrow> (case e of EvHeartbeat _ \<Rightarrow> True | _ \<Rightarrow> False)"

definition sends :: "client_state \<Rightarrow> client_state \<Rightarrow> bool" where
  "sends s s' \<longleftrightarrow> fresh_connection s s'
     \<or> (case cl_server s' of None \<Rightarrow> False | Some c \<Rightarrow> wbuf (cl_conns s' c) \<noteq> wbuf (cl_conns s c))"

definition timed_next :: "client_event \<Rightarrow> client_state \<Rightarrow> millis \<Rightarrow> timed_client \<Rightarrow> timed_client" where
  "timed_next e s' now T =
     \<lparr>tc_client = s', tc_now = now,
      tc_beat = (if is_heartbeat e \<or> fresh_connection (tc_client T) s' then now else tc_beat T),
      tc_sent = (if sends (tc_client T) s' then now else tc_sent T)\<rparr>"

text \<open>Time does not run backwards, and a connected loop passes its heartbeat at least every \<open>D\<close>.\<close>

inductive timed_step :: "'p client_env \<Rightarrow> millis \<Rightarrow> timed_client \<Rightarrow> client_event \<Rightarrow> timed_client \<Rightarrow> bool"
  for env :: "'p client_env" and D :: millis where
  timed: "client_step env (tc_client T) e s' \<Longrightarrow> tc_now T \<le> now \<Longrightarrow> event_time e \<in> {None, Some now} \<Longrightarrow>
    (cl_server (tc_client T) \<noteq> None \<Longrightarrow> now \<le> tc_beat T + D) \<Longrightarrow>
    timed_step env D T e (timed_next e s' now T)"

definition timed_init :: "timed_client \<Rightarrow> bool" where
  "timed_init T \<longleftrightarrow> tc_client T = client_start (tc_now T) \<and> tc_beat T = tc_now T \<and> tc_sent T = tc_now T"

definition ping_inv :: "millis \<Rightarrow> timed_client \<Rightarrow> bool" where
  "ping_inv D T \<longleftrightarrow> tc_sent T \<le> tc_now T \<and>
     (cl_server (tc_client T) \<noteq> None \<longrightarrow>
        cl_last_ping (tc_client T) \<le> tc_sent T \<and> tc_beat T < cl_last_ping (tc_client T) + PING_INTERVAL
        \<and> tc_now T \<le> tc_beat T + D)"

definition keeps_ping :: "client_state \<Rightarrow> client_state \<Rightarrow> bool" where
  "keeps_ping s t \<longleftrightarrow> cl_last_ping t = cl_last_ping s
     \<and> (\<forall>c. cl_server t = Some c \<longrightarrow> cl_server s = Some c)"

lemma keeps_ping_trans: "keeps_ping s t \<Longrightarrow> keeps_ping t u \<Longrightarrow> keeps_ping s u"
  by (auto simp: keeps_ping_def)

lemma keeps_ping_not_fresh: "keeps_ping s t \<Longrightarrow> \<not> fresh_connection s t"
  by (cases "cl_server t") (auto simp: keeps_ping_def fresh_connection_def)

lemma write_on_ping [simp]: "cl_last_ping (snd (write_on env c m s)) = cl_last_ping s"
  by (simp add: write_on_def split_beta)

lemma send_or_drop_ping [simp]: "cl_last_ping (send_or_drop env m s) = cl_last_ping s"
  by (auto simp: send_or_drop_def split_beta split: option.splits)

lemma send_keeps_server: "cl_server (send_or_drop env m s) = Some c \<Longrightarrow> cl_server s = Some c"
  by (auto simp: send_or_drop_def split_beta split: option.splits if_splits)

lemma send_keeps_ping: "keeps_ping s (send_or_drop env m s)"
  using send_keeps_server [of env m s] by (auto simp: keeps_ping_def)

lemma unregister_keeps_ping: "keeps_ping s (unregister env s)"
  using send_keeps_ping [of s env "UnregisterHost (ce_me env)"] by (simp add: unregister_def keeps_ping_def)

lemma withdraw_keeps_ping: "keeps_ping s (withdraw_adverts env s)"
  by (simp add: withdraw_adverts_def keeps_ping_def)

lemma hosting_keeps_ping: "keeps_ping s (game_hosting env world s)"
  by (auto simp: game_hosting_def keeps_ping_def withdraw_adverts_def Let_def dest!: send_keeps_server
      split: option.splits)

lemma browsing_keeps_ping: "keeps_ping s (game_browsing env now s)"
  using unregister_keeps_ping [of s env]
  by (auto simp: game_browsing_def fetch_request_def keeps_ping_def fetch_failed_def Let_def split_beta split: option.splits)

lemma game_phase_keeps_ping: "keeps_ping s (game_phase env now detected s)"
proof -
  have "keeps_ping s (game_closed env s)"
    using keeps_ping_trans [OF unregister_keeps_ping withdraw_keeps_ping] by (simp add: game_closed_def keeps_ping_def)
  then show ?thesis
    by (cases detected; cases "fst detected")
      (simp_all add: game_phase_def hosting_keeps_ping browsing_keeps_ping)
qed

lemma fetch_keeps_ping:
  "keeps_ping s (fetch_turn env h s)" "keeps_ping s (fetch_timeout d now s)"
  by (auto simp: keeps_ping_def fetch_turn_def fetch_timeout_def fetch_failed_def fetched_def Let_def
      split: option.splits prod.splits server_message.splits)

lemma reader_keeps_ping:
  "keeps_ping s (fst (reader_message env c now msg s))" "keeps_ping s (reader_end c s)" "keeps_ping s (reader_cancelled c s)"
  by (cases msg; simp add: keeps_ping_def reader_message_def reader_end_def reader_cancelled_def Let_def)+

lemma forward_keeps_ping: "keeps_ping s (forward_signal env target signal s)"
  by (auto simp: keeps_ping_def forward_signal_def Let_def split: option.splits)

lemma connection_ping:
  "keeps_ping s (connection_phase now connect s)
    \<or> fresh_connection s (connection_phase now connect s) \<and> cl_last_ping (connection_phase now connect s) = now"
  by (auto simp: keeps_ping_def fresh_connection_def connection_phase_def connected_def reap_reader_def Let_def
      split: option.splits sum.splits)

lemma write_message_grows:
  "is_ok (fst (write_message to_vec m w)) \<Longrightarrow> wbuf (snd (write_message to_vec m w)) \<noteq> wbuf w"
  by (auto simp: write_message_def write_all_def is_ok_iff frame_bytes_def u32_to_le_bytes_def
      split: option.splits sum.splits if_splits)

text \<open>A heartbeat that keeps the connection was not due, or it wrote a ping.\<close>

lemma heartbeat_ping:
  assumes "cl_server (heartbeat env now s) = Some c"
  shows "cl_server s = Some c \<and> (now < cl_last_ping s + PING_INTERVAL \<and> cl_last_ping (heartbeat env now s) = cl_last_ping s
    \<or> cl_last_ping (heartbeat env now s) = now \<and> wbuf (cl_conns (heartbeat env now s) c) \<noteq> wbuf (cl_conns s c))"
  using assms
  by (auto simp: heartbeat_def send_or_drop_def write_on_def split_beta PING_INTERVAL_def dest: write_message_grows
      split: if_splits option.splits)

lemma client_step_ping:
  assumes "client_step env s e t" and "\<not> is_heartbeat e"
  shows "keeps_ping s t \<or> fresh_connection s t \<and> event_time e = Some (cl_last_ping t)"
  using assms
proof (cases rule: client_step.cases)
  case (cs_connection connect now)
  then show ?thesis using connection_ping [of s now connect] by auto
next
  case (cs_heartbeat now)
  then show ?thesis using assms(2) by (simp add: is_heartbeat_def)
qed (simp_all add: game_phase_keeps_ping fetch_keeps_ping reader_keeps_ping forward_keeps_ping)

lemma ping_inv_step:
  assumes "ping_inv D T" and "timed_step env D T e T'"
  shows "ping_inv D T'"
  using assms(2)
proof cases
  case (timed s' now)
  show ?thesis
  proof (cases "is_heartbeat e")
    case True
    then have e: "s' = heartbeat env now (tc_client T)"
      using timed by (auto simp: is_heartbeat_def elim: client_stepE split: client_event.splits)
    show ?thesis
    proof (cases "cl_server s'")
      case None
      then show ?thesis using timed assms(1) by (auto simp: ping_inv_def timed_next_def)
    next
      case (Some c)
      then show ?thesis
        using heartbeat_ping [of env now "tc_client T" c] timed assms(1) True e
        by (auto simp: ping_inv_def timed_next_def sends_def PING_INTERVAL_def)
    qed
  next
    case False
    then consider "keeps_ping (tc_client T) s'" "\<not> fresh_connection (tc_client T) s'"
      | "fresh_connection (tc_client T) s'" "cl_last_ping s' = now"
      using client_step_ping [OF timed(2) False] timed(4) keeps_ping_not_fresh by auto
    then show ?thesis
    proof cases
      case 1
      then show ?thesis using timed assms(1) False by (auto simp: ping_inv_def timed_next_def keeps_ping_def)
    next
      case 2
      then show ?thesis using timed False by (auto simp: ping_inv_def timed_next_def sends_def PING_INTERVAL_def)
    qed
  qed
qed

interpretation ping_sys: invariant_system timed_init "timed_step env D" "ping_inv D" for env D
  by unfold_locales (simp add: timed_init_def ping_inv_def client_start_def, rule ping_inv_step)

text \<open>
  C12: the client never goes silent for long enough to be dropped: as long as a connected
  main loop passes its heartbeat at least every thirty seconds (its own waits, the pause, the
  probe and a host list that times out, add up to less than eight), the last byte on the
  current connection is younger than the idle timeout of the server.
\<close>

theorem client_pings_in_time:
  assumes "reachable timed_init (timed_step env D) T" and "D + PING_INTERVAL \<le> CLIENT_IDLE_TIMEOUT"
    and "cl_server (tc_client T) = Some c"
  shows "tc_now T - tc_sent T < CLIENT_IDLE_TIMEOUT
    \<and> LOOP_INTERVAL + PROBE_WAIT + LIST_TIMEOUT + PING_INTERVAL < CLIENT_IDLE_TIMEOUT"
  using ping_sys.inv_reachable [OF assms(1)] assms(2,3)
  by (auto simp: ping_inv_def LOOP_INTERVAL_def PROBE_WAIT_def LIST_TIMEOUT_def PING_INTERVAL_def CLIENT_IDLE_TIMEOUT_def)

lemma timed_reach:
  assumes "reachable timed_init (timed_step env D) T" and "client_step env (tc_client T) e s'" and "tc_now T \<le> now"
    and "event_time e \<in> {None, Some now}" and "now \<le> tc_beat T + D"
    and "T' = timed_next e s' now T"
  shows "reachable timed_init (timed_step env D) T'"
  using reach_step [OF assms(1) timed [OF assms(2-4)]] assms(5,6) by blast

text \<open>
  A client that connects at once, finds the game closed, passes its heartbeat at second
  twenty and starts its next turn five seconds later.
\<close>

definition tc_sample :: timed_client where
  "tc_sample =
     (let s1 = connection_phase 0 (Ok fresh_writer) (client_start 0);
          s2 = game_phase sample_env 1 (GameClosed, None) s1;
          s3 = heartbeat sample_env 20000 s2;
          s4 = connection_phase 25000 (Err early_eof) s3
      in \<lparr>tc_client = s4, tc_now = 25000, tc_beat = 20000, tc_sent = 20000\<rparr>)"

lemmas tc_sample_defs = connection_phase_def connected_def reap_reader_def connection_lost_def client_start_def
  game_phase_def game_closed_def unregister_def withdraw_adverts_def heartbeat_def send_or_drop_def write_on_def
  write_message_healthy healthy_def fresh_writer_def sample_env_def PING_INTERVAL_def LIVENESS_TIMEOUT_def

lemmas timed_eval = timed_next_def fresh_connection_def sends_def is_heartbeat_def frame_bytes_def u32_to_le_bytes_def

lemma tc_sample_reachable: "reachable timed_init (timed_step sample_env 30000) tc_sample"
proof -
  let ?s0 = "client_start 0"
  let ?s1 = "connection_phase 0 (Ok fresh_writer) ?s0"
  let ?s2 = "game_phase sample_env 1 (GameClosed, None) ?s1"
  let ?s3 = "heartbeat sample_env 20000 ?s2"
  let ?R = "reachable timed_init (timed_step sample_env 30000)"
  have "?R \<lparr>tc_client = ?s0, tc_now = 0, tc_beat = 0, tc_sent = 0\<rparr>"
    by (rule reach_init) (simp add: timed_init_def)
  then have "?R \<lparr>tc_client = ?s1, tc_now = 0, tc_beat = 0, tc_sent = 0\<rparr>"
    by (rule timed_reach [OF _ cs_connection [where now = 0 and connect = "Ok fresh_writer"], where now = 0])
      (simp_all add: tc_sample_defs timed_eval)
  then have "?R \<lparr>tc_client = ?s2, tc_now = 1, tc_beat = 0, tc_sent = 0\<rparr>"
    by (rule timed_reach [OF _ cs_game [where now = 1 and detected = "(GameClosed, None)"], where now = 1])
      (simp_all add: tc_sample_defs timed_eval)
  then have "?R \<lparr>tc_client = ?s3, tc_now = 20000, tc_beat = 20000, tc_sent = 20000\<rparr>"
    by (rule timed_reach [OF _ cs_heartbeat [where now = 20000], where now = 20000])
      (simp_all add: tc_sample_defs timed_eval)
  then show ?thesis
    unfolding tc_sample_def Let_def
    by (rule timed_reach [OF _ cs_connection [where now = 25000 and connect = "Err early_eof"], where now = 25000])
      (simp_all add: tc_sample_defs timed_eval)
qed

theorem client_pings_in_time_witness:
  "tc_now tc_sample - tc_sent tc_sample < CLIENT_IDLE_TIMEOUT
    \<and> LOOP_INTERVAL + PROBE_WAIT + LIST_TIMEOUT + PING_INTERVAL < CLIENT_IDLE_TIMEOUT"
  by (rule client_pings_in_time [OF tc_sample_reachable, of 0])
    (simp_all add: CLIENT_IDLE_TIMEOUT_def tc_sample_def Let_def tc_sample_defs)

end
