(* ===== verification/Signaling.thy ===== *)
theory Signaling
  imports Server_Sessions Client_Progress
begin

text \<open>
  Client and server over the bytes of a connection: serving a connection is handling the
  messages that were written to it, the reader task of a client takes the messages of the
  server one by one, and the signals of two games find their way to each other through
  both clients and the server.
\<close>

section \<open>Whole connections\<close>

text \<open>The registry after the messages of one client, handled one after the other.\<close>

fun handle_all :: "(nat \<Rightarrow> u64 hasher) \<Rightarrow> nat \<Rightarrow> socket_addr \<Rightarrow> client_message list \<Rightarrow> registry \<Rightarrow> registry" where
  "handle_all hs i addr [] reg = reg"
| "handle_all hs i addr (m # ms) reg = handle_all hs (i + 1) addr ms (handle_message (hs i) addr m reg)"

lemma serve_loop_frames:
  assumes "\<forall>m\<in>set ms. encodable to_vec from_slice m" and "\<forall>i. wake i = ReadDone"
  shows "serve_loop from_slice wake hs i addr \<lparr>rbuf = frames to_vec ms, rend = None\<rparr> reg =
    (Ok (), handle_all hs i addr ms reg)"
  using assms(1)
proof (induction ms arbitrary: i reg)
  case Nil
  then show ?case
    using spec [OF assms(2), of i] by (simp add: serve_loop.simps read_message_def read_frame_short_header)
next
  case (Cons m ms)
  then obtain p where p: "to_vec m = Ok p" "from_slice p = Ok m" "length p \<le> MAX_FRAME_BYTES"
    by (auto elim: encodableE)
  let ?r = "\<lparr>rbuf = frame_bytes p @ frames to_vec ms, rend = None\<rparr>"
  have "read_message from_slice ?r = (Ok (Some m), \<lparr>rbuf = frames to_vec ms, rend = None\<rparr>)"
    using read_message_frame [of to_vec m p from_slice ?r] p by simp
  then show ?case using Cons p spec [OF assms(2), of i] by (simp add: serve_loop.simps [of from_slice wake hs i addr ?r])
qed

text \<open>The client after the messages of the server, and the datagrams it sent into the game.\<close>

fun take_all ::
  "'p client_env \<Rightarrow> nat \<Rightarrow> (nat \<Rightarrow> millis) \<Rightarrow> nat \<Rightarrow> server_message list \<Rightarrow> client_state
     \<Rightarrow> client_state \<times> (u8 list \<times> socket_addr) list" where
  "take_all env c clock i [] s = (s, [])"
| "take_all env c clock i (m # ms) s =
     (let (s1, out) = reader_message env c (clock i) m s;
          (s2, out') = take_all env c clock (i + 1) ms s1
      in (s2, out @ out'))"

lemma reader_loop_frames:
  assumes "\<forall>m\<in>set ms. encodable to_vec from_slice m"
  shows "reader_loop from_slice env c clock i \<lparr>rbuf = frames to_vec ms, rend = None\<rparr> s =
    (let (s', out) = take_all env c clock i ms s in (reader_end c s', out))"
  using assms
proof (induction ms arbitrary: i s)
  case Nil
  then show ?case by (simp add: reader_loop.simps read_message_def read_frame_short_header)
next
  case (Cons m ms)
  then obtain p where p: "to_vec m = Ok p" "from_slice p = Ok m" "length p \<le> MAX_FRAME_BYTES"
    by (auto elim: encodableE)
  let ?r = "\<lparr>rbuf = frame_bytes p @ frames to_vec ms, rend = None\<rparr>"
  have "read_message from_slice ?r = (Ok (Some m), \<lparr>rbuf = frames to_vec ms, rend = None\<rparr>)"
    using read_message_frame [of to_vec m p from_slice ?r] p by simp
  then show ?case
    using Cons p by (simp add: reader_loop.simps [of from_slice env c clock i ?r] split: prod.split)
qed

section \<open>A signal leaves a client\<close>

text \<open>What was written on a connection between two states of a client.\<close>

definition new_bytes :: "client_state \<Rightarrow> client_state \<Rightarrow> nat \<Rightarrow> u8 list" where
  "new_bytes s t c = drop (length (wbuf (cl_conns s c))) (wbuf (cl_conns t c))"

lemma forwarded_bytes:
  assumes "parse_u64 (gs_network_id sig) = Some g" and "g \<noteq> ce_me env"
    and "target \<noteq> None \<or> cl_local_game_id s = Some g"
    and "cl_server_writer s = Some c" and "healthy (cl_conns s c)"
    and "m = ClientSignal (case target of Some t \<Rightarrow> t | None \<Rightarrow> 0) (gs_connection_id sig) (ce_me env) (gs_line sig)"
    and "is_ok (ce_to_vec env m)"
  shows "new_bytes s (forward_signal env target sig s) c = frames (ce_to_vec env) [m]"
proof -
  obtain p where "ce_to_vec env m = Ok p" using assms(7) by (auto simp: is_ok_iff)
  then show ?thesis
    using assms(1-6)
    by (auto simp: forward_signal_def new_bytes_def write_on_def write_message_healthy Let_def split: option.splits)
qed

lemma forwarded_route:
  assumes "parse_u64 (gs_network_id sig) = Some g" and "g \<noteq> ce_me env"
  shows "hm_get (cl_join_conns (forward_signal env (Some t) sig s)) (gs_connection_id sig) = Some (g, t)"
  using assms by (simp add: forward_signal_def Let_def write_on_def case_prod_beta split: option.splits)

text \<open>
  The route of a connection id stays what it is until a signal of the game on this id names
  another game or another target.
\<close>

definition same_route :: "u64 \<Rightarrow> u64 \<Rightarrow> u64 \<Rightarrow> client_event \<Rightarrow> bool" where
  "same_route conn g t e \<longleftrightarrow>
     (case e of
        EvSignal (Some t') sig \<Rightarrow>
          gs_connection_id sig = conn \<longrightarrow> t' = t \<and> parse_u64 (gs_network_id sig) = Some g
      | _ \<Rightarrow> True)"

text \<open>Most operations of the main loop leave the routes, the channels and the receiver alone.\<close>

definition frame_of :: "client_state \<Rightarrow> (u64, u64 \<times> u64) hashmap \<times> (nat \<Rightarrow> server_message channel) \<times> nat option" where
  "frame_of s = (cl_join_conns s, cl_chans s, cl_incoming s)"

lemma main_loop_frame [simp]:
  "frame_of (snd (write_on env c m s)) = frame_of s"
  "frame_of (send_or_drop env m s) = frame_of s"
  "frame_of (unregister env s) = frame_of s"
  "frame_of (withdraw_adverts env s) = frame_of s"
  "frame_of (fetch_timeout d now s) = frame_of s"
  "frame_of (heartbeat env now s) = frame_of s"
  by (simp_all add: frame_of_def write_on_def send_or_drop_def unregister_def withdraw_adverts_def fetch_timeout_def
      fetch_failed_def heartbeat_def split_beta split: option.split)

lemma frame_of_fields [simp]:
  "frame_of (s\<lparr>cl_server := a\<rparr>) = frame_of s" "frame_of (s\<lparr>cl_pc := b\<rparr>) = frame_of s"
  "frame_of (s\<lparr>cl_adverts := d\<rparr>) = frame_of s" "frame_of (s\<lparr>cl_local_game_id := g\<rparr>) = frame_of s"
  "frame_of (s\<lparr>cl_hosting_registered := x\<rparr>) = frame_of s" "frame_of (s\<lparr>cl_registered_ad := y\<rparr>) = frame_of s"
  by (simp_all add: frame_of_def)

lemma game_hosting_frame: "frame_of (game_hosting env world s) = frame_of s"
  by (simp add: game_hosting_def Let_def split: option.split)

lemma game_browsing_frame: "frame_of (game_browsing env now s) = frame_of s"
  by (simp add: game_browsing_def fetch_request_def fetch_failed_def Let_def split_beta split: option.split)

lemma game_phase_frame [simp]: "frame_of (game_phase env now detected s) = frame_of s"
  by (cases detected; cases "fst detected")
    (simp_all add: game_phase_def game_closed_def game_hosting_frame game_browsing_frame)

lemma frame_of_eqD:
  "frame_of t = frame_of s \<Longrightarrow> cl_join_conns t = cl_join_conns s \<and> cl_chans t = cl_chans s \<and> cl_incoming t = cl_incoming s"
  by (simp add: frame_of_def)

lemmas main_loop_keeps [simp] = main_loop_frame [THEN frame_of_eqD] game_phase_frame [THEN frame_of_eqD]

lemma connection_routes [simp]:
  "cl_join_conns (connection_phase now connect s) = cl_join_conns s"
  "cl_join_conns (fetch_turn env h s) = cl_join_conns s"
  by (simp_all add: connection_phase_def connected_def reap_reader_def fetch_turn_def fetch_failed_def fetched_def Let_def
      split: option.split sum.split prod.split server_message.split)

lemma reader_routes [simp]:
  "cl_join_conns (fst (reader_message env c now msg s)) = cl_join_conns s"
  "cl_join_conns (reader_end c s) = cl_join_conns s"
  "cl_join_conns (reader_cancelled c s) = cl_join_conns s"
  by (cases msg; simp add: reader_message_def reader_end_def reader_cancelled_def Let_def)+

lemma forward_routes:
  "cl_join_conns (forward_signal env target sig s) =
     (case (target, parse_u64 (gs_network_id sig)) of
        (Some t, Some g) \<Rightarrow>
          if g = ce_me env then cl_join_conns s
          else hm_insert (gs_connection_id sig) (g, t) (cl_join_conns s)
      | _ \<Rightarrow> cl_join_conns s)"
  by (simp add: forward_signal_def Let_def split: option.split)

lemma step_route:
  assumes "client_step env s e u" and "hm_get (cl_join_conns s) conn = Some (g, t)" and "same_route conn g t e"
  shows "hm_get (cl_join_conns u) conn = Some (g, t)"
  using assms
  by (cases rule: client_step.cases) (auto simp: forward_routes same_route_def split: option.splits)

lemma runs_route:
  "runs (client_step env) s es u \<Longrightarrow> hm_get (cl_join_conns s) conn = Some (g, t) \<Longrightarrow>
    list_all (same_route conn g t) es \<Longrightarrow> hm_get (cl_join_conns u) conn = Some (g, t)"
  by (induction rule: runs.induct) (auto simp: step_route)

text \<open>A client has a hosted game on record only after it found a game that hosts.\<close>

definition finds_no_world :: "client_event \<Rightarrow> bool" where
  "finds_no_world e \<longleftrightarrow> (case e of EvGame _ (Hosting, Some _) \<Rightarrow> False | _ \<Rightarrow> True)"

lemma local_game_keeps [simp]:
  "cl_local_game_id (snd (write_on env c m s)) = cl_local_game_id s"
  "cl_local_game_id (send_or_drop env m s) = cl_local_game_id s"
  "cl_local_game_id (withdraw_adverts env s) = cl_local_game_id s"
  "cl_local_game_id (fetch_timeout d now s) = cl_local_game_id s"
  "cl_local_game_id (heartbeat env now s) = cl_local_game_id s"
  "cl_local_game_id (forward_signal env target sig s) = cl_local_game_id s"
  "cl_local_game_id (fetch_turn env h s) = cl_local_game_id s"
  "cl_local_game_id (fst (reader_message env c now msg s)) = cl_local_game_id s"
  "cl_local_game_id (reader_end c s) = cl_local_game_id s"
  "cl_local_game_id (reader_cancelled c s) = cl_local_game_id s"
proof -
  show w: "cl_local_game_id (snd (write_on env c m s)) = cl_local_game_id s" for c m s
    by (simp add: write_on_def split_beta)
  show snd: "cl_local_game_id (send_or_drop env m s) = cl_local_game_id s" for m s
    by (simp add: send_or_drop_def w split_beta split: option.split)
  show "cl_local_game_id (withdraw_adverts env s) = cl_local_game_id s" by (simp add: withdraw_adverts_def)
  show "cl_local_game_id (fetch_timeout d now s) = cl_local_game_id s" by (simp add: fetch_timeout_def fetch_failed_def)
  show "cl_local_game_id (heartbeat env now s) = cl_local_game_id s" by (simp add: heartbeat_def snd)
  show "cl_local_game_id (forward_signal env target sig s) = cl_local_game_id s"
    by (simp add: forward_signal_def w Let_def split: option.split)
  show "cl_local_game_id (fetch_turn env h s) = cl_local_game_id s"
    by (cases rule: fetch_turn_cases [of env h s]) (simp_all add: fetched_def fetch_failed_def Let_def)
  show "cl_local_game_id (fst (reader_message env c now msg s)) = cl_local_game_id s"
    by (cases msg) (simp_all add: reader_message_def Let_def)
qed (simp_all add: reader_end_def reader_cancelled_def)

lemma game_phase_no_world:
  assumes "cl_local_game_id s = None" and "finds_no_world (EvGame now detected)"
  shows "cl_local_game_id (game_phase env now detected s) = None"
proof -
  have u: "cl_local_game_id (unregister env s) = None" using assms(1) by (simp add: unregister_def)
  then show ?thesis
    using assms
    by (cases detected; cases "fst detected")
      (auto simp: finds_no_world_def game_phase_def game_closed_def game_hosting_def game_browsing_def fetch_request_def
        fetch_failed_def Let_def split_beta split: option.splits)
qed

lemma step_no_world:
  assumes "client_step env s e t" and "cl_local_game_id s = None" and "finds_no_world e"
  shows "cl_local_game_id t = None"
  using assms by (cases rule: client_step.cases) (simp_all add: game_phase_no_world)

lemma runs_no_world:
  "runs (client_step env) s es t \<Longrightarrow> cl_local_game_id s = None \<Longrightarrow> list_all finds_no_world es \<Longrightarrow>
    cl_local_game_id t = None"
  by (induction rule: runs.induct) (auto simp: step_no_world)

section \<open>The channel of a client\<close>

text \<open>The channel the main loop listens on is open: only a new connection closes the old one.\<close>

definition listening :: "client_state \<Rightarrow> bool" where
  "listening s \<longleftrightarrow> (\<forall>c. cl_incoming s = Some c \<longrightarrow> chan_rx_open (cl_chans s c))"

lemma listening_frame: "frame_of t = frame_of s \<Longrightarrow> listening t = listening s"
  by (simp add: frame_of_def listening_def)

lemmas listening_keeps = game_phase_frame [THEN listening_frame] main_loop_frame [THEN listening_frame]

lemma listening_step:
  assumes "listening s" and "client_step env s e t"
  shows "listening t"
  using assms(2)
proof (cases rule: client_step.cases)
  case (cs_connection connect now)
  then show ?thesis
    using assms(1)
    by (auto simp: listening_def connection_phase_def connected_def reap_reader_def Let_def
        split: option.splits sum.splits)
next
  case (cs_fetch d h)
  then show ?thesis
    using assms(1)
    by (auto simp: listening_def fetch_turn_def fetch_failed_def fetched_def chan_try_recv_def Let_def
        split: option.splits list.splits server_message.splits)
next
  case (cs_reader_message c now msg)
  then show ?thesis
    using assms(1) by (cases msg) (auto simp: listening_def reader_message_def Let_def)
next
  case (cs_reader_end c)
  then show ?thesis using assms(1) by (simp add: listening_def reader_end_def)
next
  case (cs_reader_cancelled c)
  then show ?thesis using assms(1) by (simp add: listening_def reader_cancelled_def)
next
  case (cs_signal target signal)
  have "cl_chans (forward_signal env target signal s) = cl_chans s
      \<and> cl_incoming (forward_signal env target signal s) = cl_incoming s"
    by (simp add: forward_signal_def Let_def split: option.split)
  then show ?thesis using assms(1) cs_signal by (simp add: listening_def)
qed (use assms(1) in \<open>simp_all add: listening_keeps\<close>)

interpretation listening_sys: invariant_system client_init "client_step env" listening for env
  by unfold_locales (auto simp: client_init_def client_start_def listening_def, use listening_step listening_def in blast)

section \<open>A signal enters a client\<close>

lemma take_signal:
  assumes "encodable to_vec from_slice (ServerSignal conn from line)" and "healthy w" and "wbuf w = []"
    and "signal_route conn from s = Some (sender, recipient)" and "ce_marshal_message env recipient line sender = Ok p"
  shows "snd (reader_loop from_slice env c clock 0
      \<lparr>rbuf = wbuf (snd (write_message to_vec (ServerSignal conn from line) w)), rend = None\<rparr> s)
    = map (\<lambda>target. (p, target)) game_targets"
proof -
  let ?m = "ServerSignal conn from line"
  obtain q where q: "to_vec ?m = Ok q" using assms(1) by (auto elim: encodableE)
  then have "wbuf (snd (write_message to_vec ?m w)) = frames to_vec [?m]"
    using assms(2,3) by (simp add: write_message_healthy)
  moreover have "signal_route conn from (s\<lparr>cl_last_seen := clock 0\<rparr>) = Some (sender, recipient)"
    using assms(4) by (simp add: signal_route_def split: option.splits prod.splits)
  ultimately show ?thesis
    using reader_loop_frames [of "[?m]" to_vec from_slice env c clock 0 s] assms(1,5)
    by (simp add: reader_message_def inject_signal_def)
qed

lemma serve_one:
  assumes "encodable to_vec from_slice m"
  shows "snd (serve_loop from_slice (\<lambda>_. ReadDone) hs i addr \<lparr>rbuf = frames to_vec [m], rend = None\<rparr> reg)
    = handle_message (hs i) addr m reg"
  using serve_loop_frames [of "[m]" to_vec from_slice "\<lambda>_. ReadDone"] assms by simp


text \<open>The game of a client with id 3 clicks on host 5; the game there answers.\<close>

definition offer_signal :: game_signal where
  "offer_signal = \<lparr>gs_network_id = lit ''4'', gs_connection_id = 11, gs_line = lit ''CONNECTREQUEST 11''\<rparr>"

definition answer_signal :: game_signal where
  "answer_signal = \<lparr>gs_network_id = lit ''9'', gs_connection_id = 11, gs_line = lit ''CONNECTRESPONSE 11''\<rparr>"

definition joiner_env :: "u8 list client_env" where
  "joiner_env = sample_env\<lparr>ce_me := 3, ce_to_vec := (\<lambda>_. Ok [2])\<rparr>"

definition signal_cfs :: "u8 list \<Rightarrow> (client_message, rstr) result" where
  "signal_cfs bs =
     (if bs = [2] then Ok (ClientSignal 5 11 3 (gs_line offer_signal)) else Ok (ClientSignal 0 11 7 (gs_line answer_signal)))"

definition signal_stv :: "server_message \<Rightarrow> (u8 list, rstr) result" where
  "signal_stv m = (if m = ServerSignal 11 3 (gs_line offer_signal) then Ok [2] else Ok [1])"

definition signal_sfs :: "u8 list \<Rightarrow> (server_message, rstr) result" where
  "signal_sfs bs =
     (if bs = [2] then Ok (ServerSignal 11 3 (gs_line offer_signal)) else Ok (ServerSignal 11 7 (gs_line answer_signal)))"

lemmas signal_sample = offer_signal_def answer_signal_def joiner_env_def signal_cfs_def signal_stv_def signal_sfs_def
  sample_env_def encodable_def MAX_FRAME_BYTES_def healthy_def fresh_writer_def

lemma cl_online_writer [simp]: "cl_server_writer cl_online = Some 0"
  by (simp add: cl_online_def connection_phase_def reap_reader_def connection_lost_def client_start_def connected_def)

lemma cl_hosting_signals: "cl_local_game_id cl_hosting = Some 9" "cl_server_writer cl_hosting = Some 0"
    "healthy (cl_conns cl_hosting 0)"
  by (simp_all add: cl_hosting_def game_phase_def game_hosting_def Let_def send_or_drop_def write_on_def
      write_message_healthy healthy_def fresh_writer_def sample_env_def)


end
