(* ===== verification/Spec2Isabelle.thy ===== *)
theory Spec2Isabelle
  imports Relay_Machine Session Transport Client_Boot Discovery_Progress Server_Directory Server_Progress Client_Timing Signaling
begin

text \<open>
  Mineshaft lets Minecraft Bedrock players who are not on one LAN see and join each
  other's worlds. Every player runs a node client beside the game; a rendezvous server
  that all clients reach keeps the list of hosted worlds and relays signaling. This library
  models the Rust sources of the repository and proves what they guarantee.

  \<^bold>\<open>Parts and how they interact.\<close> The client watches UDP port 7551 through a platform
  crate. While the game hosts a world, the client probes it, announces the world to the
  server and answers joins. While the player browses, the client fetches the host list and
  hands it to the discovery service, whose heartbeat sends one pre-built response per host
  into the local game. Signals of the two games travel client, server, client. Client and
  server speak length-prefixed JSON frames over TCP.

  \<^bold>\<open>Theories.\<close>
  \<^item> \<open>Mineshaft_Prelude\<close>: machine types, results, reachability, the locale
    \<open>invariant_system\<close> that every state machine below interprets.
  \<^item> \<open>Progress\<close>: infinite runs, weak fairness, and two further contracts of a machine:
    \<open>functional_refinement\<close> of an abstract specification and \<open>leads_to\<close>, progress to a goal.
  \<^item> \<open>Rust_HashMap\<close>, \<open>Rust_Channel\<close>, \<open>Rust_Str\<close>, \<open>Rust_Encoding\<close>: what the code uses of the
    standard library and of tokio's channels. A hash map is an association list; the order
    in which it iterates is given by a \<open>hasher\<close> argument, over which every theorem
    quantifies. The locales \<open>map_interface\<close> and \<open>fifo_channel\<close> hold their contracts.
  \<^item> \<open>Core_Types\<close>: \<open>crates/core/src/error.rs\<close>, \<open>config.rs\<close>, and the advertised server entry.
  \<^item> \<open>Net\<close>: \<open>crates/core/src/net.rs\<close>. Messages, framing over byte streams that may end or
    fail anywhere, keepalive. Round trip of whole connections, prefix property of cut
    streams, behaviour at the frame limit; the locale \<open>prefix_codec\<close> is the framing law.
  \<^item> \<open>Relay\<close>, \<open>Relay_Machine\<close>, \<open>Session\<close>, \<open>Transport\<close>: \<open>crates/core/src/relay.rs\<close>,
    \<open>session.rs\<close>, \<open>transport.rs\<close>. Refinement of the relay registry; the relay shared by
    tasks that submit while its owner pumps: every command takes effect, once and in order,
    as specified over an abstract registry; refinement of the session registry; the transport, whose signaling handle
    behaves like the stack it wraps (locale \<open>signaling_wrapper\<close>). \<open>Host_Registry\<close> is the
    contract the relay and the server both satisfy.
  \<^item> \<open>Discovery\<close>, \<open>Discovery_Lifecycle\<close>, \<open>Discovery_Progress\<close>, \<open>Discovery_Setup\<close>:
    \<open>crates/core/src/discovery.rs\<close>. The advertised set and its packet cache, the heartbeat, the
    life and the end of its task, the constructors.
  \<^item> \<open>Server\<close>, \<open>Server_Machine\<close>, \<open>Server_Properties\<close>, \<open>Server_Sessions\<close>:
    \<open>examples/server/main.rs\<close>. The handler of each message, split where the code releases the
    registry lock; a step relation in which the sections of all connections, their writers
    and cleanups interleave; its invariant; the accept loop; routing, session ids, order of
    delivery. \<open>Server_Directory\<close> is its abstract specification, a directory of owned worlds,
    and the refinement; \<open>Server_Progress\<close> shows that handlers finish and messages arrive.
  \<^item> \<open>Platform_Interface\<close>, \<open>Platform_Linux\<close>, \<open>Platform_Android\<close>,
    \<open>Platform_Windows\<close>, \<open>Platform_Select\<close>: \<open>crates/platform/*/src/lib.rs\<close> and
    \<open>crates/core/src/platform.rs\<close>. Port probes, process detection, sockets, and the choice of
    a crate by the target. The locale \<open>port_probe\<close> is what the client relies on; each crate
    and the selection interpret it. What the client concludes is stated over the sockets that
    are bound, with what each system reports of them.
  \<^item> \<open>Client\<close>, \<open>Client_Boot\<close>, \<open>Client_Machine\<close>, \<open>Client_Properties\<close>, \<open>Client_Progress\<close>,
    \<open>Client_Timing\<close>: \<open>examples/client/client.rs\<close>. Start, main loop, reader task and signal
    forwarding as a step relation, the registration protocol it keeps on every connection,
    its recovery from a lost connection, and the pings of a client beside a clock.
  \<^item> \<open>Signaling\<close>: client and server over the bytes of a connection, and a signal on its way
    from game to game and back.
  \<^item> This theory: properties across components. What a client writes is what the server
    handles; the world of a hosting game is the record of the server; the records of the
    server, read from the bytes of its answer, are the packets sent into the game of a
    joiner, field by field.

  \<^bold>\<open>Code outside the repository\<close> is an argument wherever it is called: \<open>serde_json\<close>
  (\<open>to_vec\<close>, \<open>from_slice\<close>; \<open>encodable\<close> is what is relied on for one message), the NetherNet
  crate (packet codec, signaling, sessions), \<open>socket2\<close>, the Win32 calls, the file system,
  external commands and the Unicode case tables.

  \<^bold>\<open>Termination.\<close> No definition uses fuel. The loops over a connection end because every
  message takes at least the four bytes of its prefix; the sections of a handler because
  each has less left to do; the queue of the relay because pumping only removes.

  \<^bold>\<open>Progress.\<close> That something happens is stated on infinite runs that are weakly fair to the
  task concerned: a step of this task that stays possible is taken at some point. Nothing is
  assumed of the other tasks.

  \<^bold>\<open>Choices.\<close> A critical section under the registry lock of the server is one step; so is a
  message written by a writer task. In the client a step is a phase of the main loop, a
  message of a reader task, or one forwarded signal; the forwarding task takes the shared
  writer and writes in one step. An aborted reader task may go on, end or be cancelled at
  any later moment. A write that blocks is a step that is not taken yet; that it is taken
  at last is part of the fairness the progress theorems assume. A peer address is not
  accepted a second time while a task with this address exists. The stop of a heartbeat
  waits for its task to the end; a stop whose caller gives up waiting is not represented. \<open>next_session_id\<close> wraps as in a release
  build. The limit and fault properties state, as theorems about the same definitions,
  where the code does less than its comments say.

  \<^bold>\<open>Not modelled.\<close> Logging, poisoning of locks, the module declarations and re-exports of
  \<open>crates/core/src/lib.rs\<close>, the exact duration of sleeps (the clock of \<open>Client_Timing\<close> bounds
  the time between two heartbeats instead), and the tests.
\<close>

section \<open>A connection from end to end\<close>

text \<open>
  C14: serving a connection is handling its messages: when a client writes any sequence of
  messages to a working connection, the server handles exactly these messages, in order,
  reports a clean end, and afterwards removes what the connection left.
\<close>

theorem served_as_written:
  assumes "\<forall>m\<in>set ms. encodable to_vec from_slice m" and "healthy w" and "wbuf w = []"
    and "bytes = wbuf (snd (write_messages to_vec ms w))" and "\<forall>i. wake i = ReadDone"
  shows "handle_client from_slice wake hs addr \<lparr>rbuf = bytes, rend = None\<rparr> reg =
      (Ok (), handle_all hs 0 addr ms (client_connected addr reg))
    \<and> connection_task from_slice wake hs h addr \<lparr>rbuf = bytes, rend = None\<rparr> reg =
      client_disconnected h addr (handle_all hs 0 addr ms (client_connected addr reg))"
proof -
  have "\<forall>m\<in>set ms. is_ok (to_vec m)" using assms(1) by (fastforce elim: encodableE)
  then have "bytes = frames to_vec ms" using assms(2-4) by (simp add: write_messages_healthy)
  then show ?thesis
    using assms(1,5) by (simp add: handle_client_def connection_task_def serve_loop_frames)
qed

text \<open>A codec for three of the messages.\<close>

fun sample_to_vec :: "client_message \<Rightarrow> (u8 list, rstr) result" where
  "sample_to_vec (RegisterHost server) = (if server = host5 then Ok [1] else Err [])"
| "sample_to_vec ListHosts = Ok [2]"
| "sample_to_vec Ping = Ok [3]"
| "sample_to_vec _ = Err []"

definition sample_from_slice :: "u8 list \<Rightarrow> (client_message, rstr) result" where
  "sample_from_slice bs =
     (if bs = [1] then Ok (RegisterHost host5) else if bs = [2] then Ok ListHosts
      else if bs = [3] then Ok Ping else Err [])"

theorem served_as_written_witness:
  "let bytes = wbuf (snd (write_messages sample_to_vec [RegisterHost host5, Ping] fresh_writer)) in
    handle_client sample_from_slice (\<lambda>_. ReadDone) (\<lambda>_ _. 0) addr_b \<lparr>rbuf = bytes, rend = None\<rparr> registry_start =
      (Ok (), handle_all (\<lambda>_ _. 0) 0 addr_b [RegisterHost host5, Ping] (client_connected addr_b registry_start))
    \<and> connection_task sample_from_slice (\<lambda>_. ReadDone) (\<lambda>_ _. 0) (\<lambda>_. 0) addr_b \<lparr>rbuf = bytes, rend = None\<rparr> registry_start =
      client_disconnected (\<lambda>_. 0) addr_b
        (handle_all (\<lambda>_ _. 0) 0 addr_b [RegisterHost host5, Ping] (client_connected addr_b registry_start))"
  unfolding Let_def
  by (rule served_as_written [OF _ _ _ refl])
    (simp_all add: encodable_def sample_from_slice_def healthy_def fresh_writer_def MAX_FRAME_BYTES_def)

section \<open>From the game of the host to the server\<close>

text \<open>What the messages of one client do to its registration.\<close>

definition record_of :: "u64 \<Rightarrow> server_advertisement option \<Rightarrow> advertised_server option" where
  "record_of me a = map_option (\<lambda>ad. \<lparr>sender_id = me, ad_data = ad\<rparr>) a"

definition tracks :: "u64 \<Rightarrow> socket_addr \<Rightarrow> server_advertisement option \<Rightarrow> registry \<Rightarrow> bool" where
  "tracks me addr a reg \<longleftrightarrow> hm_get (reg_host_records reg) me = record_of me a
     \<and> hm_get (reg_hosts reg) me = (if a = None then None else Some addr)"

lemma handle_message_hosts:
  "reg_hosts (handle_message h addr m reg) = reg_hosts (fst (first_section h addr m reg))"
  "reg_host_records (handle_message h addr m reg) = reg_host_records (fst (first_section h addr m reg))"
  by (auto simp: handle_message_def case_prod_beta) (cases "snd (first_section h addr m reg)"; simp)+

lemma tracks_step:
  assumes "tracks me addr a reg" and "allowed me a m"
  shows "tracks me addr (announces m a) (handle_message h addr m reg)"
  using assms
  by (cases m) (auto simp: tracks_def record_of_def handle_message_hosts split: option.splits if_splits)

lemma tracks_all:
  "tracks me addr a reg \<Longrightarrow> protocol me a ms \<Longrightarrow> tracks me addr (fold announces ms a) (handle_all hs i addr ms reg)"
  by (induction ms arbitrary: a i reg) (auto simp: tracks_step)

lemma written_healthy:
  assumes "written env ms w" and "healthy w" and "\<forall>m\<in>set ms. is_ok (ce_to_vec env m)"
  shows "wbuf w = frames (ce_to_vec env) ms"
  using assms fold_write_prefix [of ms "ce_to_vec env"] unfolding written_def healthy_def by fastforce

text \<open>
  C2: the world of the game reaches the server: when the client has looked at the game and
  is still connected, and the server reads the bytes of this connection, then the server's
  record under the client's id is exactly the world the game hosts, and there is none when
  it hosts nothing; provided nobody else used this id, the messages encode within the frame
  limit and the connection works.
\<close>

theorem world_reaches_server:
  assumes "reachable client_init (client_step env) s" and "cl_pc s = AtGame"
    and "t = game_phase env now detected s" and "cl_server t = Some c"
  shows "\<exists>ms. written env ms (cl_conns t c) \<and> protocol (ce_me env) None ms
    \<and> announced ms = detected_world env detected
    \<and> (\<forall>from_slice wake hs addr reg.
        (\<forall>i. wake i = ReadDone) \<and> healthy (cl_conns t c) \<and> (\<forall>m\<in>set ms. encodable (ce_to_vec env) from_slice m)
        \<and> hm_get (reg_hosts reg) (ce_me env) = None \<and> hm_get (reg_host_records reg) (ce_me env) = None \<longrightarrow>
        (let (r, reg') = handle_client from_slice wake hs addr \<lparr>rbuf = wbuf (cl_conns t c), rend = None\<rparr> reg
         in r = Ok () \<and> hm_get (reg_host_records reg') (ce_me env) = record_of (ce_me env) (detected_world env detected)))"
proof -
  obtain ms where ms: "written env ms (cl_conns t c)" "protocol (ce_me env) None ms"
      "announced ms = detected_world env detected"
    using announced_after_game [OF assms] by blast
  have "handle_client from_slice wake hs addr \<lparr>rbuf = wbuf (cl_conns t c), rend = None\<rparr> reg =
        (Ok (), handle_all hs 0 addr ms (client_connected addr reg))
      \<and> tracks (ce_me env) addr (announced ms) (handle_all hs 0 addr ms (client_connected addr reg))"
    if "\<forall>i. wake i = ReadDone" and "healthy (cl_conns t c)" and enc: "\<forall>m\<in>set ms. encodable (ce_to_vec env) from_slice m"
      and "hm_get (reg_hosts reg) (ce_me env) = None" and "hm_get (reg_host_records reg) (ce_me env) = None"
    for from_slice wake hs addr reg
  proof -
    have "\<forall>m\<in>set ms. is_ok (ce_to_vec env m)" using enc by (fastforce elim: encodableE)
    then have "wbuf (cl_conns t c) = frames (ce_to_vec env) ms" using written_healthy ms(1) that(2) by blast
    moreover have "tracks (ce_me env) addr None (client_connected addr reg)"
      using that(4,5) by (simp add: tracks_def record_of_def client_connected_def)
    ultimately show ?thesis
      using tracks_all [OF _ ms(2)] enc that(1) by (simp add: handle_client_def serve_loop_frames)
  qed
  then show ?thesis using ms unfolding tracks_def by (intro exI [of _ ms]) fastforce
qed

text \<open>The one message the example client has written.\<close>

lemma length_frames_sample: "length (frames (ce_to_vec sample_env) ms) = 5 * length ms"
  by (induction ms) (simp_all add: sample_env_def frames_def frame_bytes_def u32_to_le_bytes_def)

lemma cl_hosting_conn:
  "healthy (cl_conns cl_hosting 0)" "length (wbuf (cl_conns cl_hosting 0)) = 5"
  by (simp_all add: cl_hosting_def game_phase_def game_hosting_def Let_def send_or_drop_def write_on_def
      write_message_healthy healthy_def fresh_writer_def sample_env_def frame_bytes_def u32_to_le_bytes_def)

lemma single_announcement:
  assumes "protocol me None [m]" and "announced [m] = Some ad"
  shows "m = RegisterHost \<lparr>sender_id = me, ad_data = ad\<rparr>"
  using assms by (cases m) auto

theorem world_reaches_server_witness:
  "let from_slice = (\<lambda>_. Ok (RegisterHost \<lparr>sender_id = 7, ad_data = default_advertisement\<rparr>));
       (r, reg') = handle_client from_slice (\<lambda>_. ReadDone) (\<lambda>_ _. 0) addr_b
         \<lparr>rbuf = wbuf (cl_conns cl_hosting 0), rend = None\<rparr> registry_start
    in r = Ok () \<and> hm_get (reg_host_records reg') 7 = Some \<lparr>sender_id = 7, ad_data = default_advertisement\<rparr>"
proof -
  let ?m = "RegisterHost \<lparr>sender_id = 7, ad_data = default_advertisement\<rparr>"
  let ?detected = "(Hosting, Some (9, default_advertisement))"
  have me: "ce_me sample_env = 7" by (simp add: sample_env_def)
  have world: "detected_world sample_env ?detected = Some default_advertisement" by (simp add: detected_world_def)
  obtain ms where ms: "written sample_env ms (cl_conns cl_hosting 0)" "protocol 7 None ms"
      "announced ms = Some default_advertisement"
    and served: "\<And>from_slice wake hs addr reg. (\<forall>i. wake i = ReadDone) \<and> healthy (cl_conns cl_hosting 0)
        \<and> (\<forall>m\<in>set ms. encodable (ce_to_vec sample_env) from_slice m)
        \<and> hm_get (reg_hosts reg) 7 = None \<and> hm_get (reg_host_records reg) 7 = None \<Longrightarrow>
        (let (r, reg') = handle_client from_slice wake hs addr \<lparr>rbuf = wbuf (cl_conns cl_hosting 0), rend = None\<rparr> reg
         in r = Ok () \<and> hm_get (reg_host_records reg') 7 = record_of 7 (Some default_advertisement))"
    using world_reaches_server [OF reachable_online _ cl_hosting_def, of 0] unfolding me world by fastforce
  have "wbuf (cl_conns cl_hosting 0) = frames (ce_to_vec sample_env) ms"
    using ms(1) cl_hosting_conn(1) by (rule written_healthy) (simp add: sample_env_def is_ok_def)
  then have "length ms = 1" using cl_hosting_conn(2) length_frames_sample [of ms] by simp
  then obtain m where "ms = [m]" by (cases ms) auto
  then have "ms = [?m]" using ms(2,3) single_announcement by blast
  then have "\<forall>m\<in>set ms. encodable (ce_to_vec sample_env) (\<lambda>_. Ok ?m) m"
    by (simp add: encodable_def sample_env_def MAX_FRAME_BYTES_def)
  then show ?thesis
    using served [of "\<lambda>_. ReadDone" "\<lambda>_. Ok ?m" registry_start "\<lambda>_ _. 0" addr_b] cl_hosting_conn(1)
    by (simp add: registry_start_def registry_default_def record_of_def)
qed

section \<open>From the server into the game of a joiner\<close>

lemma fetch_turn_hosts:
  "cl_incoming s = Some c \<Longrightarrow> chan_queue (cl_chans s c) = HostList hosts # rest \<Longrightarrow>
    fetch_turn env h s = fetched env h hosts (s\<lparr>cl_chans := (cl_chans s)(c := (cl_chans s c)\<lparr>chan_queue := rest\<rparr>)\<rparr>)"
  by (simp add: fetch_turn_def chan_try_recv_def)

lemma served_hosts_distinct:
  "reg_ok reg \<Longrightarrow> distinct (map sender_id (served_hosts h reg))"
  by (simp add: served_hosts_ids hm_distinct_keys reg_ok_def)

lemma rebuilt_served_hosts:
  assumes "reg_ok reg" and "buildable nc (served_hosts h reg)"
  shows "rebuilt nc (served_hosts h reg) sid = Some c \<longleftrightarrow>
    (\<exists>r. hm_get (reg_host_records reg) sid = Some r \<and> ca_data c = ad_data r
      \<and> build_response_packet nc sid (ad_data r) = Ok (ca_packet c))"
proof (cases "sid \<in> sender_id ` set (served_hosts h reg)")
  case True
  then obtain r where r: "r \<in> set (served_hosts h reg)" "sender_id r = sid" by auto
  then have get: "hm_get (reg_host_records reg) sid = Some r" using in_served_hosts [OF assms(1)] by metis
  obtain p where "build_response_packet nc sid (ad_data r) = Ok p"
    using assms(2) r by (auto simp: buildable_def list_all_iff is_ok_iff)
  then show ?thesis
    using rebuilt_distinct [OF served_hosts_distinct [OF assms(1)] r(1), of nc] r(2) get by (cases c) auto
next
  case False
  then have "hm_get (reg_host_records reg) sid = None"
    using in_served_hosts [OF assms(1)] assms(1) by (metis image_eqI option.exhaust reg_ok_def)
  then show ?thesis using rebuilt_notin [OF False, of nc] by simp
qed

text \<open>The datagrams that one packet per host and target make.\<close>

definition host_packets ::
  "'p nethernet_codec \<Rightarrow> advertised_server list \<Rightarrow> socket_addr list \<Rightarrow> (u8 list \<times> socket_addr) list" where
  "host_packets nc hosts targets = concat (map (\<lambda>r.
     case build_response_packet nc (sender_id r) (ad_data r) of
       Inl _ \<Rightarrow> [] | Inr packet \<Rightarrow> map (\<lambda>target. (packet, target)) targets) hosts)"

lemma host_packets_product:
  assumes "\<And>r. r \<in> set hosts \<Longrightarrow> build_response_packet nc (sender_id r) (ad_data r) = Ok (f r)"
  shows "host_packets nc hosts targets = List.product (map f hosts) targets"
  using assms by (induction hosts) (simp_all add: host_packets_def)

lemma advertised_after_fetch:
  assumes "reg_ok reg" and "hosts = served_hosts h reg"
    and "coherent (ce_codec env) m" and "buildable (ce_codec env) hosts" and "m' = replace_all (ce_codec env) hosts m"
  shows "mset (broadcast_once h' targets m') = mset (host_packets (ce_codec env) hosts targets)"
proof -
  let ?nc = "ce_codec env" and ?packet = "\<lambda>r. ca_packet (the (hm_get m' (sender_id r)))"
  have get: "hm_get m' sid = Some c \<longleftrightarrow>
      (\<exists>r. hm_get (reg_host_records reg) sid = Some r \<and> ca_data c = ad_data r
        \<and> build_response_packet ?nc sid (ad_data r) = Ok (ca_packet c))" for sid c
    using rebuilt_served_hosts [OF assms(1)] assms(2,4,5) replace_all_rebuilt [OF assms(3,4)] by simp
  have built: "build_response_packet ?nc (sender_id r) (ad_data r) = Ok (?packet r)
      \<and> hm_get m' (sender_id r) \<noteq> None" if r: "r \<in> set hosts" for r
  proof -
    obtain p where p: "build_response_packet ?nc (sender_id r) (ad_data r) = Ok p"
      using assms(4) r by (auto simp: buildable_def list_all_iff is_ok_iff)
    have "hm_get (reg_host_records reg) (sender_id r) = Some r"
      using r in_served_hosts [OF assms(1)] assms(2) by metis
    then have "hm_get m' (sender_id r) = Some \<lparr>ca_data = ad_data r, ca_packet = p\<rparr>"
      using get [of "sender_id r" "\<lparr>ca_data = ad_data r, ca_packet = p\<rparr>"] p by simp
    then show ?thesis using p by simp
  qed
  have "dom (hm_get m') \<subseteq> sender_id ` set hosts"
  proof
    fix sid assume "sid \<in> dom (hm_get m')"
    then obtain r where r: "hm_get (reg_host_records reg) sid = Some r" using get by blast
    then have "sender_id r = sid" using assms(1) by (simp add: reg_ok_def)
    with r show "sid \<in> sender_id ` set hosts" using in_served_hosts [OF assms(1)] assms(2) by blast
  qed
  then have "set (map sender_id hosts) = dom (hm_get m')" using built by auto
  moreover have "hm_ok m'" using assms(3,5) coherent_replace_all coherentD(1) by metis
  moreover have "distinct (map sender_id hosts)" using assms(1,2) served_hosts_distinct by simp
  ultimately have "mset (broadcast_once h' targets m')
      = mset (List.product (map (\<lambda>k. ca_packet (the (hm_get m' k))) (map sender_id hosts)) targets)"
    by (intro mset_broadcast_once)
  also have "\<dots> = mset (host_packets ?nc hosts targets)"
    using host_packets_product [of hosts ?nc ?packet targets] built by (simp add: comp_def)
  finally show ?thesis .
qed

text \<open>
  C3: the hosts of the server reach the game of a joiner: the server answers a request for
  the host list with one message; when the client reads the bytes of this message and its
  main loop takes the list, the datagrams of the next heartbeat are, up to their order,
  exactly one per registered host and local target, with the packet built from the id of the
  host and its registered world; nothing that was advertised before survives.
\<close>

theorem served_hosts_reach_game:
  assumes "reachable server_init server_step sv" and "hosts = served_hosts h (sv_reg sv)"
    and "takes_messages (sv_reg sv) a" and "reg' = handle_message h a ListHosts (sv_reg sv)"
    and "encodable stv sfs (HostList hosts)" and "healthy w" and "wbuf w = []"
    and "reachable client_init (client_step env) s"
    and "cl_incoming s = Some c" and "chan_queue (cl_chans s c) = []"
    and "buildable (ce_codec env) hosts"
  shows "(\<exists>m. inbox reg' a = inbox (sv_reg sv) a @ [m]
      \<and> fst (read_message sfs \<lparr>rbuf = wbuf (snd (write_message stv m w)) @ rest, rend = e\<rparr>) = Ok (Some m)
      \<and> mset (broadcast_once h'' targets (cl_adverts (fetch_turn env h' (fst (reader_message env c now m s)))))
        = mset (host_packets (ce_codec env) hosts targets))
    \<and> distinct (map sender_id hosts) \<and> set hosts = ran (hm_get (reg_host_records (sv_reg sv)))"
proof (intro exI conjI)
  have ok: "reg_ok (sv_reg sv)"
    using server_sys.inv_reachable [OF assms(1)] by (simp add: server_inv_def reg_inv_def)
  then show "distinct (map sender_id hosts)" and "set hosts = ran (hm_get (reg_host_records (sv_reg sv)))"
    using assms(2) served_hosts_distinct by (simp_all add: served_hosts_def hm_set_values reg_ok_def)
  show "inbox reg' a = inbox (sv_reg sv) a @ [HostList hosts]"
    using assms(2-4) by (simp add: handle_message_def served_hosts_def)
  obtain p where p: "stv (HostList hosts) = Ok p" "sfs p = Ok (HostList hosts)" "length p \<le> MAX_FRAME_BYTES"
    using assms(5) by (auto elim: encodableE)
  then show "fst (read_message sfs \<lparr>rbuf = wbuf (snd (write_message stv (HostList hosts) w)) @ rest, rend = e\<rparr>)
      = Ok (Some (HostList hosts))"
    using assms(6,7) read_message_frame [of stv "HostList hosts" p sfs "\<lparr>rbuf = frame_bytes p @ rest, rend = e\<rparr>" rest]
    by (simp add: write_message_healthy)
  let ?s = "fst (reader_message env c now (HostList hosts) s)"
  have "chan_rx_open (cl_chans s c)"
    using listening_sys.inv_reachable [OF assms(8)] assms(9) by (simp add: listening_def)
  then have "chan_queue (cl_chans ?s c) = HostList hosts # []" and "cl_incoming ?s = Some c" and "cl_adverts ?s = cl_adverts s"
    using assms(9,10) by (simp_all add: reader_message_def)
  then have t: "cl_adverts (fetch_turn env h' ?s) = replace_all (ce_codec env) hosts (cl_adverts s)"
    using fetch_turn_hosts [of ?s c hosts "[]" env h'] by (simp add: fetched_def Let_def)
  have "coherent (ce_codec env) (cl_adverts s)"
    using client_sys.inv_reachable [OF assms(8)] by (simp add: client_inv_def)
  then show "mset (broadcast_once h'' targets (cl_adverts (fetch_turn env h' ?s)))
      = mset (host_packets (ce_codec env) hosts targets)"
    using t by (rule advertised_after_fetch [OF ok assms(2) _ assms(11)])
qed

definition cl_browsing :: client_state where
  "cl_browsing = game_phase sample_env 0 (Browsing, None) cl_online"

lemma browsing_online:
  "cl_incoming cl_browsing = Some 0" "cl_chans cl_browsing 0 = chan_new"
  by (simp_all add: cl_browsing_def game_phase_def game_browsing_def fetch_request_def unregister_def write_on_def sample_env_def Let_def
      case_prod_beta fetch_failed_def split: option.split)
    (simp_all add: cl_online_def connection_phase_def reap_reader_def connection_lost_def client_start_def
      connected_def)

lemma reachable_browsing: "reachable client_init (client_step sample_env) cl_browsing"
  unfolding cl_browsing_def using reachable_online by (rule reach_step) (rule cs_game, simp)

theorem served_hosts_reach_game_witness:
  "(\<exists>m. inbox (handle_message (\<lambda>_. 0) addr_b ListHosts (sv_reg sv_abc)) addr_b = inbox (sv_reg sv_abc) addr_b @ [m]
    \<and> fst (read_message (\<lambda>_. Ok (HostList [host5])) \<lparr>rbuf = wbuf (snd (write_message (\<lambda>_. Ok [1]) m fresh_writer)) @ [],
        rend = None\<rparr>) = Ok (Some m)
    \<and> mset (broadcast_once (\<lambda>_. 0) (local_targets default_discovery_config)
        (cl_adverts (fetch_turn sample_env (\<lambda>_. 0) (fst (reader_message sample_env 0 1 m cl_browsing)))))
      = mset (host_packets (ce_codec sample_env) [host5] (local_targets default_discovery_config)))
    \<and> distinct (map sender_id [host5]) \<and> set [host5] = ran (hm_get (reg_host_records (sv_reg sv_abc)))"
proof (rule served_hosts_reach_game [OF reachable_abc _ _ refl _ _ _ reachable_browsing browsing_online(1)])
  show "[host5] = served_hosts (\<lambda>_. 0) (sv_reg sv_abc)"
    by (simp add: served_hosts_def hm_values_def hm_iter_def)
  show "encodable (\<lambda>_. Ok [1]) (\<lambda>_. Ok (HostList [host5])) (HostList [host5])"
    by (simp add: encodable_def MAX_FRAME_BYTES_def)
  show "buildable (ce_codec sample_env) [host5]"
    by (simp add: buildable_def sample_env_def host5_def example_codec_eval is_ok_def)
qed (simp_all add: healthy_def fresh_writer_def browsing_online)

section \<open>What a joiner sees of a world\<close>

lemma server_data_roundtrip:
  "server_data_of (advertisement_of sd) = sd" "advertisement_of (server_data_of ad) = ad"
  by (simp_all add: server_data_of_def advertisement_of_def)

text \<open>
  C30: the data of a world survives the whole way: reading the answer of the hosting game
  into an advertisement and building a response from it again loses and swaps no field, so
  the packet a joiner's client sends into its game is marshalled from exactly the data the
  game of the host answered with.
\<close>

theorem game_data_preserved:
  "server_data_of (advertisement_of sd) = sd
    \<and> advertisement_of (server_data_of ad) = ad
    \<and> build_response_packet nc sid (advertisement_of sd) =
        (case nc_marshal_data nc sd of
           Inl e \<Rightarrow> Err (Nethernet e)
         | Inr bytes \<Rightarrow> map_err Nethernet (nc_marshal nc (nc_response_new nc bytes) sid))"
  by (simp add: build_response_packet_def server_data_roundtrip)

end
